theory Spec2Isabelle
  imports Complex_Main "HOL-Library.Word"
begin

unbundle bit_operations_syntax

section \<open>j12dump: serial transport and command decoder\<close>

text \<open>
  A shallow embedding of \<^verbatim>\<open>src/j12dump.c\<close>. The program keeps its state in four
  file-level statics (\<^verbatim>\<open>fd\<close>, \<^verbatim>\<open>settings\<close>, \<^verbatim>\<open>exp\<close>, \<^verbatim>\<open>btn\<close>) and talks to a tty
  through \<^verbatim>\<open>open\<close>, \<^verbatim>\<open>ioctl\<close>, \<^verbatim>\<open>tcflush\<close>, \<^verbatim>\<open>tcdrain\<close>, \<^verbatim>\<open>read\<close>, \<^verbatim>\<open>write\<close> and
  \<^verbatim>\<open>close\<close>. Every function of the source becomes a function on a record \<open>world\<close> that
  holds the statics, \<^verbatim>\<open>errno\<close>, and the operating system's side: the answers the
  kernel will give to the calls still to come, and a log of what has happened.
\<close>

subsection \<open>Types and constants\<close>

type_synonym byte = "8 word"     \<comment> \<open>\<^verbatim>\<open>unsigned char\<close>, \<^verbatim>\<open>cc_t\<close>\<close>
type_synonym tcflag = "32 word"  \<comment> \<open>\<^verbatim>\<open>tcflag_t\<close>, \<^verbatim>\<open>speed_t\<close>: \<^verbatim>\<open>unsigned int\<close>\<close>

abbreviation (input) SERIAL_OK :: int where "SERIAL_OK \<equiv> 0"
abbreviation (input) SERIAL_ERR :: int where "SERIAL_ERR \<equiv> - 1"
abbreviation (input) SERIAL_ERR_OPEN :: int where "SERIAL_ERR_OPEN \<equiv> - 2"
abbreviation (input) SERIAL_ERR_READ :: int where "SERIAL_ERR_READ \<equiv> - 3"
abbreviation (input) SERIAL_ERR_WRITE :: int where "SERIAL_ERR_WRITE \<equiv> - 4"
abbreviation (input) SERIAL_ERR_INIT :: int where "SERIAL_ERR_INIT \<equiv> - 5"
abbreviation (input) SERIAL_ERR_TIMEOUT :: int where "SERIAL_ERR_TIMEOUT \<equiv> - 6"

text \<open>\<^verbatim>\<open>EINTR\<close> of \<^verbatim>\<open><errno.h>\<close> and the largest \<^verbatim>\<open>int\<close>.\<close>

abbreviation (input) EINTR :: int where "EINTR \<equiv> 4"
abbreviation (input) INT_MAX :: int where "INT_MAX \<equiv> 2147483647"

text \<open>
  The flag bits of \<^verbatim>\<open><asm/termios.h>\<close>, a header of the Linux kernel and not of this
  repository, with the values of \<^verbatim>\<open>asm-generic/termbits.h\<close> (octal there).
\<close>

definition CS5 :: tcflag where "CS5 = 0"
definition CS6 :: tcflag where "CS6 = 16"
definition CS7 :: tcflag where "CS7 = 32"
definition CS8 :: tcflag where "CS8 = 48"
definition CSTOPB :: tcflag where "CSTOPB = 64"
definition CREAD :: tcflag where "CREAD = 128"
definition PARENB :: tcflag where "PARENB = 256"
definition PARODD :: tcflag where "PARODD = 512"
definition CLOCAL :: tcflag where "CLOCAL = 2048"
definition CBAUD :: tcflag where "CBAUD = 4111"
definition BOTHER :: tcflag where "BOTHER = 4096"
definition B300 :: tcflag where "B300 = 7"
definition B2400 :: tcflag where "B2400 = 11"
definition B4800 :: tcflag where "B4800 = 12"
definition B9600 :: tcflag where "B9600 = 13"
definition B19200 :: tcflag where "B19200 = 14"
definition B38400 :: tcflag where "B38400 = 15"
definition B57600 :: tcflag where "B57600 = 4097"
definition B115200 :: tcflag where "B115200 = 4098"
definition CRTSCTS :: tcflag where "CRTSCTS = 2147483648"
definition IGNPAR :: tcflag where "IGNPAR = 4"

text \<open>
  \<^verbatim>\<open>struct termios2\<close>. Of the control characters \<^verbatim>\<open>c_cc\<close> the program touches only
  \<^verbatim>\<open>c_cc[VMIN]\<close> and \<^verbatim>\<open>c_cc[VTIME]\<close>, so these two are the fields kept.
\<close>

record termios2 =
  c_iflag :: tcflag
  c_oflag :: tcflag
  c_cflag :: tcflag
  c_lflag :: tcflag
  c_cc_VMIN :: byte
  c_cc_VTIME :: byte
  c_ispeed :: tcflag
  c_ospeed :: tcflag

text \<open>
  What the kernel answers to one \<^verbatim>\<open>read\<close>: failure with an \<^verbatim>\<open>errno\<close>, or the bytes
  the line has ready (none: the timeout ran out). To one \<^verbatim>\<open>write\<close>: failure with
  an \<^verbatim>\<open>errno\<close>, or the number of bytes the driver is willing to take.
\<close>

datatype read_answer = ReadFails int | ReadGives "byte list"
datatype write_answer = WriteFails int | WriteTakes nat

text \<open>The log of system calls, with the descriptor and the arguments that matter.\<close>

datatype call =
    Call_open string
  | Call_close int
  | Call_TCGETS2 int
  | Call_TCSETS2 int termios2
  | Call_tcflush int
  | Call_tcdrain int
  | Call_read int nat
  | Call_write int nat

text \<open>
  What the program sends to the console and the pauses it takes, in order. The two
  error lines are the \<^verbatim>\<open>printf\<close> calls
  \<^verbatim>\<open>"\rError %i while reading pedal %i"\<close> and \<^verbatim>\<open>"\rError %i while reading command    "\<close>;
  \<open>Print_state\<close> is the status line of the main loop: the command byte, the four
  pedal bytes and one mark per button.
\<close>

datatype console_event =
    Print_pedal_error int int
  | Print_command_error int
  | Print_state byte "byte list list" "bool list"
  | Sleep nat
  | Usleep nat

record world =
  fd :: int                            \<comment> \<open>\<^verbatim>\<open>static int fd = -1\<close>\<close>
  settings :: termios2                 \<comment> \<open>\<^verbatim>\<open>static struct termios2 settings\<close>\<close>
  exp_arr :: "byte list list"          \<comment> \<open>\<^verbatim>\<open>static unsigned char exp[2][2]\<close>\<close>
  btn :: "byte list"                   \<comment> \<open>\<^verbatim>\<open>static unsigned char btn[12]\<close>\<close>
  errno :: int
  driver :: termios2                   \<comment> \<open>the configuration the tty driver works with\<close>
  open_answers :: "int list"
  ioctl_answers :: "int list"
  read_answers :: "read_answer list"
  write_answers :: "write_answer list"
  delivered :: "byte list"             \<comment> \<open>every byte \<^verbatim>\<open>read\<close> has handed over so far\<close>
  sent :: "byte list"                  \<comment> \<open>every byte \<^verbatim>\<open>write\<close> has taken so far\<close>
  calls :: "call list"
  console :: "console_event list"

text \<open>
  A function of the source either returns or stops: \<open>No_answer\<close> when the answers
  of the kernel are used up (the call is still waiting; nothing more is known about the run),
  \<open>Out_of_bounds\<close> when it writes or reads past the end of an array and
  \<open>Signed_overflow\<close> when an \<^verbatim>\<open>int\<close> addition leaves the range of \<^verbatim>\<open>int\<close>, both undefined
  behaviour in C.
\<close>

datatype stop = No_answer | Out_of_bounds | Signed_overflow

text \<open>The statics as the loader initialises them, with a kernel that answers nothing.\<close>

definition zero_termios :: termios2 where
  "zero_termios = \<lparr>c_iflag = 0, c_oflag = 0, c_cflag = 0, c_lflag = 0,
     c_cc_VMIN = 0, c_cc_VTIME = 0, c_ispeed = 0, c_ospeed = 0\<rparr>"

definition initial_world :: world where
  "initial_world = \<lparr>fd = - 1, settings = zero_termios,
     exp_arr = [[0, 0], [0, 0]], btn = replicate 12 0, errno = 0,
     driver = zero_termios, open_answers = [], ioctl_answers = [],
     read_answers = [], write_answers = [], delivered = [], sent = [],
     calls = [], console = []\<rparr>"

text \<open>The arrays have the sizes of their declarations.\<close>

definition arrays_ok :: "world \<Rightarrow> bool" where
  "arrays_ok w \<longleftrightarrow>
     length (exp_arr w) = 2 \<and> length (exp_arr w ! 0) = 2 \<and> length (exp_arr w ! 1) = 2
     \<and> length (btn w) = 12"

subsection \<open>The system calls\<close>

text \<open>
  The kernel's side of each call. A negative descriptor is refused with \<open>- 1\<close>
  before the driver is asked. \<^verbatim>\<open>TCSETS2\<close> that succeeds installs the program's
  settings in the driver, \<^verbatim>\<open>TCGETS2\<close> that succeeds copies the driver's back.
  \<^verbatim>\<open>read\<close> hands over at most \<open>count\<close> of the bytes that are ready and keeps the
  rest for the next call; \<^verbatim>\<open>write\<close> takes at most \<open>count\<close> bytes. The number of bytes
  of one call is taken to fit an \<^verbatim>\<open>int\<close> (Linux transfers at most \<open>0x7ffff000\<close> bytes
  per call), so that storing the \<^verbatim>\<open>ssize_t\<close> result in an \<^verbatim>\<open>int\<close> keeps its value.
\<close>

definition sys_open :: "string \<Rightarrow> world \<Rightarrow> stop + (int \<times> world)" where
  "sys_open device w =
     (case open_answers w of
        [] \<Rightarrow> Inl No_answer
      | r # rs \<Rightarrow> Inr (r, w\<lparr>open_answers := rs, calls := calls w @ [Call_open device]\<rparr>))"

definition sys_ioctl_TCSETS2 :: "world \<Rightarrow> stop + (int \<times> world)" where
  "sys_ioctl_TCSETS2 w =
     (if fd w < 0 then Inr (- 1, w\<lparr>calls := calls w @ [Call_TCSETS2 (fd w) (settings w)]\<rparr>)
      else (case ioctl_answers w of
        [] \<Rightarrow> Inl No_answer
      | r # rs \<Rightarrow>
          Inr (r, w\<lparr>ioctl_answers := rs,
                    driver := (if r = 0 then settings w else driver w),
                    calls := calls w @ [Call_TCSETS2 (fd w) (settings w)]\<rparr>)))"

definition sys_ioctl_TCGETS2 :: "world \<Rightarrow> stop + (int \<times> world)" where
  "sys_ioctl_TCGETS2 w =
     (if fd w < 0 then Inr (- 1, w\<lparr>calls := calls w @ [Call_TCGETS2 (fd w)]\<rparr>)
      else (case ioctl_answers w of
        [] \<Rightarrow> Inl No_answer
      | r # rs \<Rightarrow>
          Inr (r, w\<lparr>ioctl_answers := rs,
                    settings := (if r = 0 then driver w else settings w),
                    calls := calls w @ [Call_TCGETS2 (fd w)]\<rparr>)))"

definition sys_tcflush :: "world \<Rightarrow> world" where
  "sys_tcflush w = w\<lparr>calls := calls w @ [Call_tcflush (fd w)]\<rparr>"

definition sys_tcdrain :: "world \<Rightarrow> world" where
  "sys_tcdrain w = w\<lparr>calls := calls w @ [Call_tcdrain (fd w)]\<rparr>"

definition sys_close :: "world \<Rightarrow> world" where
  "sys_close w = w\<lparr>calls := calls w @ [Call_close (fd w)]\<rparr>"

text \<open>
  \<open>sys_read count w\<close> gives the return value of \<^verbatim>\<open>read\<close>, the bytes it stored at the
  start of the buffer it was given, and the world after the call.
\<close>

definition sys_read :: "nat \<Rightarrow> world \<Rightarrow> stop + (int \<times> byte list \<times> world)" where
  "sys_read count w =
     (case read_answers w of
        [] \<Rightarrow> Inl No_answer
      | ReadFails e # rs \<Rightarrow>
          Inr (- 1, [], w\<lparr>errno := e, read_answers := rs,
                          calls := calls w @ [Call_read (fd w) count]\<rparr>)
      | ReadGives bs # rs \<Rightarrow>
          Inr (int (length (take count bs)), take count bs,
               w\<lparr>read_answers := (if count < length bs then ReadGives (drop count bs) # rs else rs),
                 delivered := delivered w @ take count bs,
                 calls := calls w @ [Call_read (fd w) count]\<rparr>))"

text \<open>
  \<open>sys_write buf count w\<close> gives the return value of \<^verbatim>\<open>write\<close> and the world after
  the call; the driver is handed the first \<open>count\<close> bytes at \<open>buf\<close>.
\<close>

definition sys_write :: "byte list \<Rightarrow> nat \<Rightarrow> world \<Rightarrow> stop + (int \<times> world)" where
  "sys_write buf count w =
     (case write_answers w of
        [] \<Rightarrow> Inl No_answer
      | WriteFails e # rs \<Rightarrow>
          Inr (- 1, w\<lparr>errno := e, write_answers := rs,
                      calls := calls w @ [Call_write (fd w) count]\<rparr>)
      | WriteTakes k # rs \<Rightarrow>
          (if length buf < min k count then Inl Out_of_bounds
           else Inr (int (min k count),
                     w\<lparr>write_answers := rs,
                       sent := sent w @ take (min k count) buf,
                       calls := calls w @ [Call_write (fd w) count]\<rparr>)))"

text \<open>The bytes a list of answers to \<^verbatim>\<open>read\<close> still holds, and a size that every \<^verbatim>\<open>read\<close> lowers.\<close>

fun bytes_of :: "read_answer \<Rightarrow> byte list" where
  "bytes_of (ReadFails e) = []"
| "bytes_of (ReadGives bs) = bs"

definition pending :: "read_answer list \<Rightarrow> byte list" where
  "pending rs = concat (map bytes_of rs)"

definition weight :: "read_answer list \<Rightarrow> nat" where
  "weight rs = length rs + length (pending rs)"

subsection \<open>The transport functions\<close>

definition SerialOpen :: "string \<Rightarrow> world \<Rightarrow> stop + (int \<times> world)" where
  "SerialOpen device w =
     (case sys_open device w of
        Inl s \<Rightarrow> Inl s
      | Inr (r, w1) \<Rightarrow>
          let w2 = w1\<lparr>fd := r\<rparr> in
          if fd w2 < 0 then Inr (SERIAL_ERR_OPEN, w2)
          else (case sys_ioctl_TCGETS2 w2 of
            Inl s \<Rightarrow> Inl s
          | Inr (r', w3) \<Rightarrow>
              if r' \<noteq> 0 then Inr (SERIAL_ERR_OPEN, w3) else Inr (SERIAL_OK, w3)))"

definition SerialClose :: "world \<Rightarrow> world" where
  "SerialClose w = sys_close w"

definition SerialFlush :: "world \<Rightarrow> int \<times> world" where
  "SerialFlush w = (if fd w < 0 then (SERIAL_ERR, w) else (SERIAL_OK, sys_tcflush w))"

definition SerialDrain :: "world \<Rightarrow> int \<times> world" where
  "SerialDrain w = (if fd w < 0 then (SERIAL_ERR, w) else (SERIAL_OK, sys_tcdrain w))"

text \<open>
  C's \<^verbatim>\<open>/\<close> on \<^verbatim>\<open>int\<close> truncates towards zero. The assignment to \<^verbatim>\<open>c_cc[VTIME]\<close>
  converts the \<^verbatim>\<open>int\<close> to \<^verbatim>\<open>cc_t\<close>, which keeps its low eight bits.
\<close>

definition c_div :: "int \<Rightarrow> int \<Rightarrow> int" where
  "c_div a b = sgn a * sgn b * (\<bar>a\<bar> div \<bar>b\<bar>)"

definition SerialSetTimeout :: "int \<Rightarrow> world \<Rightarrow> stop + (int \<times> world)" where
  "SerialSetTimeout ms w =
     (if ms < 0 then
        (case sys_ioctl_TCSETS2
                (w\<lparr>settings := (settings w)\<lparr>c_cc_VMIN := 0, c_cc_VTIME := 0\<rparr>\<rparr>) of
           Inl s \<Rightarrow> Inl s
         | Inr (r, w1) \<Rightarrow> if r \<noteq> 0 then Inr (SERIAL_ERR_INIT, w1) else Inr (SERIAL_OK, w1))
      else if INT_MAX < ms + 99 then Inl Signed_overflow
      else
        (case sys_ioctl_TCSETS2
                (w\<lparr>settings := (settings w)\<lparr>c_cc_VMIN := (if ms \<noteq> 0 then 0 else 1),
                                             c_cc_VTIME := word_of_int (c_div (ms + 99) 100)\<rparr>\<rparr>) of
           Inl s \<Rightarrow> Inl s
         | Inr (r, w1) \<Rightarrow> if r \<noteq> 0 then Inr (SERIAL_ERR_INIT, w1) else Inr (SERIAL_OK, w1)))"

text \<open>
  A C string is given as the characters before its terminating NUL, so \<^verbatim>\<open>strlen\<close>
  is their number. The four \<^verbatim>\<open>switch\<close> statements of
  \<^verbatim>\<open>SerialInit\<close> follow, each giving the new \<^verbatim>\<open>cflags\<close>, or \<open>None\<close> where the
  \<^verbatim>\<open>default\<close> branch returns \<^verbatim>\<open>SERIAL_ERR_INIT\<close>. In the parity switch the case
  \<^verbatim>\<open>'O'\<close> falls through into the case \<^verbatim>\<open>'E'\<close>.
\<close>

definition strlen :: "string \<Rightarrow> nat" where
  "strlen s = length s"

definition datasize :: "char \<Rightarrow> tcflag \<Rightarrow> tcflag option" where
  "datasize c cflags =
     (if c = CHR ''5'' then Some (cflags OR CS5)
      else if c = CHR ''6'' then Some (cflags OR CS6)
      else if c = CHR ''7'' then Some (cflags OR CS7)
      else if c = CHR ''8'' then Some (cflags OR CS8)
      else None)"

definition parity :: "char \<Rightarrow> tcflag \<Rightarrow> tcflag option" where
  "parity c cflags =
     (if c = CHR ''N'' then Some cflags
      else if c = CHR ''O'' then Some ((cflags OR PARODD) OR PARENB)
      else if c = CHR ''E'' then Some (cflags OR PARENB)
      else None)"

definition stopbit :: "char \<Rightarrow> tcflag \<Rightarrow> tcflag option" where
  "stopbit c cflags =
     (if c = CHR ''1'' then Some cflags
      else if c = CHR ''2'' then Some (cflags OR CSTOPB)
      else None)"

text \<open>The baud-rate switch gives the new \<^verbatim>\<open>cflags\<close> and \<^verbatim>\<open>speed\<close>.\<close>

definition baudrate :: "int \<Rightarrow> tcflag \<Rightarrow> tcflag \<times> tcflag" where
  "baudrate baud cflags =
     (if baud = 115200 then (cflags OR B115200, 0)
      else if baud = 57600 then (cflags OR B57600, 0)
      else if baud = 38400 then (cflags OR B38400, 0)
      else if baud = 19200 then (cflags OR B19200, 0)
      else if baud = 9600 then (cflags OR B9600, 0)
      else if baud = 4800 then (cflags OR B4800, 0)
      else if baud = 2400 then (cflags OR B2400, 0)
      else if baud = 300 then (cflags OR B300, 0)
      else ((cflags AND NOT CBAUD) OR BOTHER, word_of_int baud))"

text \<open>The format is \<open>None\<close> for a null pointer.\<close>

definition SerialInit :: "int \<Rightarrow> string option \<Rightarrow> int \<Rightarrow> world \<Rightarrow> stop + (int \<times> world)" where
  "SerialInit baud format rtscts w =
     (if fd w < 0 then Inr (SERIAL_ERR_INIT, w)
      else (case format of
        None \<Rightarrow> Inr (SERIAL_ERR_INIT, w)
      | Some f \<Rightarrow>
          if strlen f \<noteq> 3 then Inr (SERIAL_ERR_INIT, w)
          else (case datasize (f ! 0) (c_cflag (settings w) OR (CLOCAL OR CREAD)) of
            None \<Rightarrow> Inr (SERIAL_ERR_INIT, w)
          | Some cflags1 \<Rightarrow>
          (case parity (f ! 1) cflags1 of
            None \<Rightarrow> Inr (SERIAL_ERR_INIT, w)
          | Some cflags2 \<Rightarrow>
          (case stopbit (f ! 2) cflags2 of
            None \<Rightarrow> Inr (SERIAL_ERR_INIT, w)
          | Some cflags3 \<Rightarrow>
          (let (cflags4, speed) = baudrate baud cflags3;
               cflags = (if rtscts \<noteq> 0 then cflags4 OR CRTSCTS else cflags4);
               w1 = w\<lparr>settings := (settings w)\<lparr>c_cflag := cflags, c_iflag := IGNPAR,
                         c_ispeed := speed, c_ospeed := speed,
                         c_cc_VMIN := 0, c_cc_VTIME := 0\<rparr>\<rparr>
           in (case sys_ioctl_TCSETS2 w1 of
                 Inl s \<Rightarrow> Inl s
               | Inr (r, w2) \<Rightarrow>
                   if r \<noteq> 0 then Inr (SERIAL_ERR_INIT, w2)
                   else (case sys_ioctl_TCGETS2 w2 of
                     Inl s \<Rightarrow> Inl s
                   | Inr (r', w3) \<Rightarrow>
                       if r' \<noteq> 0 then Inr (SERIAL_ERR_INIT, w3)
                       else Inr (SERIAL_OK, snd (SerialFlush w3))))))))))"

text \<open>
  The formats the specification lists: a data size of 5 to 8 bits, parity none, odd or
  even, one or two stop bits. This definition follows the specification's words, not
  the source, and is what \<^verbatim>\<open>SerialInit\<close> is compared with.
\<close>

definition spec_format_ok :: "string option \<Rightarrow> bool" where
  "spec_format_ok format =
     (case format of
        Some [d, p, s] \<Rightarrow>
          d \<in> set ''5678'' \<and> p \<in> set ''NOE'' \<and> s \<in> set ''12''
      | _ \<Rightarrow> False)"

text \<open>
  The loop of \<^verbatim>\<open>SerialSendBuffer\<close>, on the pointer \<^verbatim>\<open>buf\<close> (the bytes from it on) and
  \<^verbatim>\<open>len\<close>. The kernel takes no more than it is offered, so \<^verbatim>\<open>len -= written\<close> does not
  wrap.
\<close>

function SerialSendBuffer_loop :: "byte list \<Rightarrow> nat \<Rightarrow> world \<Rightarrow> stop + (int \<times> world)" where
  "SerialSendBuffer_loop buf len w =
     (if 0 < len then
        (case sys_write buf len w of
           Inl s \<Rightarrow> Inl s
         | Inr (written, w1) \<Rightarrow>
             if written < 0 then
               (if errno w1 = EINTR then SerialSendBuffer_loop buf len w1
                else Inr (SERIAL_ERR_WRITE, w1))
             else SerialSendBuffer_loop (drop (nat written) buf) (len - nat written) w1)
      else Inr (SERIAL_OK, w))"
  by pat_completeness auto
termination
  by (relation "measure (\<lambda>(buf, len, w). length (write_answers w))")
     (auto simp: sys_write_def split: list.splits write_answer.splits if_splits)

definition SerialSendBuffer :: "byte list \<Rightarrow> nat \<Rightarrow> world \<Rightarrow> stop + (int \<times> world)" where
  "SerialSendBuffer buf len w =
     (if fd w < 0 then Inr (SERIAL_ERR_WRITE, w) else SerialSendBuffer_loop buf len w)"

definition SerialSendByte :: "byte \<Rightarrow> world \<Rightarrow> stop + (int \<times> world)" where
  "SerialSendByte b w = SerialSendBuffer [b] 1 w"

text \<open>
  The loop of \<^verbatim>\<open>SerialReceiveBuffer\<close>. \<open>buf\<close> is the caller's array and \<open>off\<close> how far
  the pointer \<^verbatim>\<open>buf\<close> has moved into it; \<open>len\<close> is \<^verbatim>\<open>*len\<close> and \<open>length'\<close> the local
  \<^verbatim>\<open>length\<close>. \<^verbatim>\<open>read\<close> stores what it hands over at the pointer. The result is the
  return value, the array, the final \<^verbatim>\<open>*len\<close> and the world. Every path that leaves
  the loop assigns \<^verbatim>\<open>*len = length\<close>. \<^verbatim>\<open>read\<close> gives no more than \<^verbatim>\<open>*len\<close> bytes, so
  \<^verbatim>\<open>*len -= received\<close> does not wrap.
\<close>

function SerialReceiveBuffer_loop ::
  "byte list \<Rightarrow> nat \<Rightarrow> nat \<Rightarrow> nat \<Rightarrow> int \<Rightarrow> world \<Rightarrow> stop + (int \<times> byte list \<times> nat \<times> world)" where
  "SerialReceiveBuffer_loop buf off len length' timeout w =
     (if 0 < len then
        (case sys_read len w of
           Inl s \<Rightarrow> Inl s
         | Inr (received, data, w1) \<Rightarrow>
             if length buf < off + length data then Inl Out_of_bounds
             else
               (let buf1 = take off buf @ data @ drop (off + length data) buf;
                    length1 = (if 0 < received then length' + nat received else length')
                in if received < 0 then
                     (if errno w1 = EINTR then
                        SerialReceiveBuffer_loop buf1 off len length1 timeout w1
                      else Inr (SERIAL_ERR_READ, buf1, length1, w1))
                   else if received = 0 then
                     (if timeout < 0 then Inr (SERIAL_OK, buf1, length1, w1)
                      else Inr (SERIAL_ERR_TIMEOUT, buf1, length1, w1))
                   else
                     SerialReceiveBuffer_loop buf1 (off + nat received) (len - nat received)
                       length1 timeout w1))
      else Inr (SERIAL_OK, buf, length', w))"
  by pat_completeness auto
termination
  by (relation "measure (\<lambda>(buf, off, len, length', timeout, w). weight (read_answers w))")
     (auto simp: sys_read_def weight_def pending_def
           split: list.splits read_answer.splits if_splits)

text \<open>The return value of \<^verbatim>\<open>SerialSetTimeout\<close> is dropped, as in the source.\<close>

definition SerialReceiveBuffer ::
  "byte list \<Rightarrow> nat \<Rightarrow> int \<Rightarrow> world \<Rightarrow> stop + (int \<times> byte list \<times> nat \<times> world)" where
  "SerialReceiveBuffer buf len timeout w =
     (if fd w < 0 then Inr (SERIAL_ERR_READ, buf, len, w)
      else (case SerialSetTimeout timeout w of
        Inl s \<Rightarrow> Inl s
      | Inr (r, w1) \<Rightarrow> SerialReceiveBuffer_loop buf 0 len 0 timeout w1))"

text \<open>\<^verbatim>\<open>SerialReceiveByte\<close>: the byte \<open>c\<close> is what \<^verbatim>\<open>*c\<close> holds before the call.\<close>

definition SerialReceiveByte :: "byte \<Rightarrow> int \<Rightarrow> world \<Rightarrow> stop + (int \<times> byte \<times> world)" where
  "SerialReceiveByte c timeout w =
     (case SerialReceiveBuffer [c] 1 timeout w of
        Inl s \<Rightarrow> Inl s
      | Inr (r, buf, len, w1) \<Rightarrow> Inr (r, (case buf of [] \<Rightarrow> c | b # bs \<Rightarrow> b), w1))"

subsection \<open>The decoder\<close>

text \<open>
  \<^verbatim>\<open>ReadPedal\<close> reads straight into \<^verbatim>\<open>exp[pedal]\<close>: the row is the buffer handed to
  \<^verbatim>\<open>SerialReceiveBuffer\<close>, and what comes back is the row afterwards.
\<close>

definition ReadPedal :: "int \<Rightarrow> world \<Rightarrow> stop + world" where
  "ReadPedal pedal w =
     (if pedal < 0 \<or> int (length (exp_arr w)) \<le> pedal then Inl Out_of_bounds
      else (case SerialReceiveBuffer (exp_arr w ! nat pedal) 2 0 w of
        Inl s \<Rightarrow> Inl s
      | Inr (err, row, len, w1) \<Rightarrow>
          let w2 = w1\<lparr>exp_arr := (exp_arr w1)[nat pedal := row]\<rparr> in
          if err \<noteq> 0 then
            Inr (w2\<lparr>console := console w2 @ [Print_pedal_error err pedal, Sleep 1]\<rparr>)
          else Inr w2))"

text \<open>
  \<^verbatim>\<open>ReadButton\<close>: \<^verbatim>\<open>memset(btn, 0, sizeof (btn))\<close> for the value 15, else the
  unchecked store \<^verbatim>\<open>btn[button] = 1\<close>, which is outside the array for an index
  that is negative or not below its length.
\<close>

definition ReadButton :: "int \<Rightarrow> world \<Rightarrow> stop + world" where
  "ReadButton button w =
     (if button = 0x0F then Inr (w\<lparr>btn := replicate 12 0\<rparr>)
      else if button < 0 \<or> int (length (btn w)) \<le> button then Inl Out_of_bounds
      else Inr (w\<lparr>btn := (btn w)[nat button := 1]\<rparr>))"

text \<open>The \<^verbatim>\<open>switch (cmd & 0xF0)\<close> of \<^verbatim>\<open>main\<close>.\<close>

definition main_switch :: "byte \<Rightarrow> world \<Rightarrow> stop + world" where
  "main_switch cmd w =
     (if cmd AND 0xF0 = 0xE0 then ReadPedal (uint (cmd AND 0x01)) w
      else if cmd AND 0xF0 = 0xF0 then ReadButton (uint (cmd AND 0x0F)) w
      else Inr w)"

text \<open>
  One turn of the \<^verbatim>\<open>while (1)\<close> of \<^verbatim>\<open>main\<close>, from the value \<^verbatim>\<open>cmd\<close> holds when the
  turn starts: it gives \<^verbatim>\<open>cmd\<close> and the world at the end of the turn.
\<close>

definition main_loop_body :: "byte \<Rightarrow> world \<Rightarrow> stop + (byte \<times> world)" where
  "main_loop_body cmd w =
     (case SerialReceiveByte cmd 1 w of
        Inl s \<Rightarrow> Inl s
      | Inr (err, cmd1, w1) \<Rightarrow>
          let w2 = (if err \<noteq> 0
                    then w1\<lparr>console := console w1 @ [Print_command_error err, Sleep 1]\<rparr>
                    else w1)
          in (case main_switch cmd1 w2 of
                Inl s \<Rightarrow> Inl s
              | Inr w3 \<Rightarrow>
                  Inr (cmd1, w3\<lparr>console := console w3 @
                         [Print_state cmd1 (exp_arr w3) (map (\<lambda>b. b \<noteq> 0) (take 12 (btn w3))),
                          Usleep 10000]\<rparr>)))"

subsection \<open>What a run of the receive loop establishes\<close>

text \<open>
  \<open>recv_post\<close> relates the state in which the loop of \<^verbatim>\<open>SerialReceiveBuffer\<close> starts
  to the one in which it returns, through the bytes \<open>got\<close> that \<^verbatim>\<open>read\<close> handed over
  in between: they are counted in \<^verbatim>\<open>*len\<close>, stored in order from the pointer on, taken
  from the front of what the line holds, and fewer than asked for unless the result
  is \<^verbatim>\<open>SERIAL_OK\<close>. \<open>keeps_reading\<close> holds of an answer to \<^verbatim>\<open>read\<close> after which the loop
  goes round again: an interruption by a signal, or at least one byte.
\<close>

definition recv_post ::
  "byte list \<Rightarrow> nat \<Rightarrow> nat \<Rightarrow> nat \<Rightarrow> int \<Rightarrow> world \<Rightarrow> int \<Rightarrow> byte list \<Rightarrow> nat \<Rightarrow> world \<Rightarrow> byte list \<Rightarrow> bool" where
  "recv_post buf off len length' timeout w r buf' n w' got \<longleftrightarrow>
     n = length' + length got \<and> length got \<le> len
     \<and> buf' = take off buf @ got @ drop (off + length got) buf
     \<and> (got = [] \<or> off + length got \<le> length buf)
     \<and> delivered w' = delivered w @ got
     \<and> pending (read_answers w) = got @ pending (read_answers w')
     \<and> (r = SERIAL_OK \<or> r = SERIAL_ERR_READ \<or> r = SERIAL_ERR_TIMEOUT)
     \<and> (r = SERIAL_OK \<or> length got < len)
     \<and> (r = SERIAL_OK \<and> 0 \<le> timeout \<longrightarrow> length got = len)
     \<and> fd w' = fd w \<and> exp_arr w' = exp_arr w \<and> btn w' = btn w
     \<and> console w' = console w \<and> settings w' = settings w"

fun keeps_reading :: "read_answer \<Rightarrow> bool" where
  "keeps_reading (ReadFails e) = (e = EINTR)"
| "keeps_reading (ReadGives bs) = (bs \<noteq> [])"

subsection \<open>Worlds to run the program in\<close>

text \<open>
  An open port whose driver takes one byte, is then interrupted by a signal, and then
  takes up to five bytes.
\<close>

definition send_world :: world where
  "send_world = initial_world\<lparr>fd := 3,
     write_answers := [WriteTakes 1, WriteFails EINTR, WriteTakes 5]\<rparr>"

text \<open>
  An open port on which one byte arrives, then a signal interrupts, then two more
  bytes arrive.
\<close>

definition recv_world :: world where
  "recv_world = initial_world\<lparr>fd := 3, ioctl_answers := [0, 0],
     read_answers := [ReadGives [0x12], ReadFails EINTR, ReadGives [0x34, 0x56]]\<rparr>"

text \<open>
  An open port on which one byte arrives and the next \<^verbatim>\<open>read\<close> fails with \<^verbatim>\<open>errno\<close> 5
  (\<^verbatim>\<open>EIO\<close>), and the world in which a receive of two bytes with timeout 0 leaves it.
\<close>

definition pedal_world :: world where
  "pedal_world = initial_world\<lparr>fd := 3, ioctl_answers := [0],
     read_answers := [ReadGives [0x12], ReadFails 5]\<rparr>"

definition pedal_world_failed :: world where
  "pedal_world_failed = pedal_world\<lparr>settings := zero_termios\<lparr>c_cc_VMIN := 1\<rparr>,
     driver := zero_termios\<lparr>c_cc_VMIN := 1\<rparr>, errno := 5, ioctl_answers := [],
     read_answers := [], delivered := [0x12],
     calls := [Call_TCSETS2 3 (zero_termios\<lparr>c_cc_VMIN := 1\<rparr>), Call_read 3 2, Call_read 3 1]\<rparr>"

text \<open>
  An open port on which a pedal-0 frame arrives in two portions after an interruption,
  followed by a button command.
\<close>

definition frame_world :: world where
  "frame_world = initial_world\<lparr>fd := 3, ioctl_answers := [0, 0],
     read_answers := [ReadFails EINTR, ReadGives [0xE0, 0x12], ReadGives [0x34],
                      ReadGives [0xF3]]\<rparr>"

section \<open>Properties\<close>

subsection \<open>The system calls on an open port\<close>

lemma sys_ioctl_TCSETS2_open:
  "0 \<le> fd w \<Longrightarrow> ioctl_answers w = r # rs \<Longrightarrow>
   sys_ioctl_TCSETS2 w = Inr (r, w\<lparr>ioctl_answers := rs,
       driver := (if r = 0 then settings w else driver w),
       calls := calls w @ [Call_TCSETS2 (fd w) (settings w)]\<rparr>)"
  by (simp add: sys_ioctl_TCSETS2_def)

lemma sys_ioctl_TCGETS2_open:
  "0 \<le> fd w \<Longrightarrow> ioctl_answers w = r # rs \<Longrightarrow>
   sys_ioctl_TCGETS2 w = Inr (r, w\<lparr>ioctl_answers := rs,
       settings := (if r = 0 then driver w else settings w),
       calls := calls w @ [Call_TCGETS2 (fd w)]\<rparr>)"
  by (simp add: sys_ioctl_TCGETS2_def)

subsection \<open>Timeouts\<close>

lemma c_div_nonneg: "0 \<le> ms \<Longrightarrow> c_div (ms + 99) 100 = (ms + 99) div 100"
  by (simp add: c_div_def sgn_if)

lemma ceil_ms: "(ms + 99) div 100 = \<lceil>real_of_int ms / 100\<rceil>"
proof -
  have "(ms + 99) div 100 = - (- ms div 100)" by linarith
  also have "\<dots> = \<lceil>real_of_int ms / real_of_int 100\<rceil>"
    by (rule ceiling_divide_eq_div [symmetric])
  finally show ?thesis by simp
qed

lemma vtime_fits:
  assumes "0 \<le> ms" "ms \<le> 25500"
  shows "uint (word_of_int (c_div (ms + 99) 100) :: byte) = \<lceil>real_of_int ms / 100\<rceil>"
proof -
  have d: "c_div (ms + 99) 100 = (ms + 99) div 100"
    using assms(1) by (rule c_div_nonneg)
  have lo: "0 \<le> (ms + 99) div 100" using assms by linarith
  have hi: "(ms + 99) div 100 < 256" using assms by linarith
  have "uint (word_of_int ((ms + 99) div 100) :: byte) = (ms + 99) div 100"
    using lo hi by (simp add: uint_word_of_int)
  then show ?thesis by (simp add: d ceil_ms)
qed


text \<open>
  Claim C1 says that \<^verbatim>\<open>SerialSetTimeout\<close> stores \<open>ceil(ms/100)\<close> deciseconds for every
  \<open>ms \<ge> 0\<close> and that \<open>ms = 0\<close> gives 0 deciseconds with \<^verbatim>\<open>VMIN = 0\<close>. In the source
  \<^verbatim>\<open>c_cc[VMIN] = (ms) ? 0 : 1\<close>, so \<open>ms = 0\<close> stores \<^verbatim>\<open>VTIME = 0\<close> with \<^verbatim>\<open>VMIN = 1\<close>, not
  with \<^verbatim>\<open>VMIN = 0\<close>.
\<close>

theorem C1_zero_timeout_VMIN_counterexample:
  "\<not> isl (SerialSetTimeout 0 (initial_world\<lparr>fd := 3, ioctl_answers := [0]\<rparr>))
   \<and> c_cc_VMIN (settings (snd (projr
         (SerialSetTimeout 0 (initial_world\<lparr>fd := 3, ioctl_answers := [0]\<rparr>))))) = 1
   \<and> c_cc_VTIME (settings (snd (projr
         (SerialSetTimeout 0 (initial_world\<lparr>fd := 3, ioctl_answers := [0]\<rparr>))))) = 0"
  by (simp add: SerialSetTimeout_def sys_ioctl_TCSETS2_def c_div_def)

text \<open>
  Claim C1 as amended. On an open port, for \<open>0 \<le> ms \<le> 25500\<close> the call stores
  \<^verbatim>\<open>VTIME\<close> = \<open>ceil(ms/100)\<close> deciseconds, with \<^verbatim>\<open>VMIN = 0\<close> when \<open>ms > 0\<close> and
  \<^verbatim>\<open>VMIN = 1\<close> when \<open>ms = 0\<close>; the pair \<^verbatim>\<open>VMIN = 0\<close>, \<^verbatim>\<open>VTIME = 0\<close> is what a negative
  \<open>ms\<close> stores. The driver has these values once the \<^verbatim>\<open>ioctl\<close> succeeds, and the
  return value is \<^verbatim>\<open>SERIAL_OK\<close> then and \<^verbatim>\<open>SERIAL_ERR_INIT\<close> otherwise.
\<close>

theorem C1_SerialSetTimeout_units:
  assumes "0 \<le> fd w" and "ioctl_answers w = r # rs"
  shows "(0 \<le> ms \<and> ms \<le> 25500 \<longrightarrow>
            (\<exists>w'. SerialSetTimeout ms w = Inr (if r = 0 then SERIAL_OK else SERIAL_ERR_INIT, w')
               \<and> uint (c_cc_VTIME (settings w')) = \<lceil>real_of_int ms / 100\<rceil>
               \<and> c_cc_VMIN (settings w') = (if ms = 0 then 1 else 0)
               \<and> (r = 0 \<longrightarrow> driver w' = settings w')))
       \<and> (ms < 0 \<longrightarrow>
            (\<exists>w'. SerialSetTimeout ms w = Inr (if r = 0 then SERIAL_OK else SERIAL_ERR_INIT, w')
               \<and> c_cc_VTIME (settings w') = 0 \<and> c_cc_VMIN (settings w') = 0
               \<and> (r = 0 \<longrightarrow> driver w' = settings w')))"
proof (intro conjI impI)
  assume ms: "0 \<le> ms \<and> ms \<le> 25500"
  then have v: "uint (word_of_int (c_div (ms + 99) 100) :: byte) = \<lceil>real_of_int ms / 100\<rceil>"
    by (simp add: vtime_fits)
  from ms have g: "\<not> ms < 0" "\<not> INT_MAX < ms + 99" by simp_all
  show "\<exists>w'. SerialSetTimeout ms w = Inr (if r = 0 then SERIAL_OK else SERIAL_ERR_INIT, w')
               \<and> uint (c_cc_VTIME (settings w')) = \<lceil>real_of_int ms / 100\<rceil>
               \<and> c_cc_VMIN (settings w') = (if ms = 0 then 1 else 0)
               \<and> (r = 0 \<longrightarrow> driver w' = settings w')"
    using assms v by (simp add: SerialSetTimeout_def g sys_ioctl_TCSETS2_open)
next
  assume "ms < 0"
  then show "\<exists>w'. SerialSetTimeout ms w = Inr (if r = 0 then SERIAL_OK else SERIAL_ERR_INIT, w')
               \<and> c_cc_VTIME (settings w') = 0 \<and> c_cc_VMIN (settings w') = 0
               \<and> (r = 0 \<longrightarrow> driver w' = settings w')"
    using assms by (simp add: SerialSetTimeout_def sys_ioctl_TCSETS2_open)
qed

theorem C1_SerialSetTimeout_units_witness:
  "(\<exists>w'. SerialSetTimeout 250 (initial_world\<lparr>fd := 3, ioctl_answers := [0]\<rparr>) = Inr (SERIAL_OK, w')
      \<and> uint (c_cc_VTIME (settings w')) = 3 \<and> c_cc_VMIN (settings w') = 0
      \<and> driver w' = settings w')
   \<and> (\<exists>w'. SerialSetTimeout (- 1) (initial_world\<lparr>fd := 3, ioctl_answers := [0]\<rparr>) = Inr (SERIAL_OK, w')
      \<and> c_cc_VTIME (settings w') = 0 \<and> c_cc_VMIN (settings w') = 0
      \<and> driver w' = settings w')"
proof -
  have h: "0 \<le> fd (initial_world\<lparr>fd := 3, ioctl_answers := [0]\<rparr>)"
    "ioctl_answers (initial_world\<lparr>fd := 3, ioctl_answers := [0]\<rparr>) = [0]"
    by simp_all
  have c: "\<lceil>real_of_int 250 / 100\<rceil> = (3::int)" by simp
  from C1_SerialSetTimeout_units [OF h, of 250] C1_SerialSetTimeout_units [OF h, of "- 1"] c
  show ?thesis by simp
qed

subsection \<open>Line format\<close>

lemma datasize_Some_iff: "(\<exists>y. datasize c x = Some y) \<longleftrightarrow> c \<in> set ''5678''"
  by (auto simp: datasize_def)

lemma parity_Some_iff: "(\<exists>y. parity c x = Some y) \<longleftrightarrow> c \<in> set ''NOE''"
  by (auto simp: parity_def)

lemma stopbit_Some_iff: "(\<exists>y. stopbit c x = Some y) \<longleftrightarrow> c \<in> set ''12''"
  by (auto simp: stopbit_def)

lemma SerialInit_rejects:
  assumes "\<not> spec_format_ok format"
  shows "SerialInit baud format rtscts w = Inr (SERIAL_ERR_INIT, w)"
proof (cases format)
  case None
  then show ?thesis by (simp add: SerialInit_def)
next
  case (Some f)
  show ?thesis
  proof (cases "length f = 3")
    case False
    with Some show ?thesis by (simp add: SerialInit_def strlen_def)
  next
    case True
    then obtain d p s where f: "f = [d, p, s]"
      by (auto simp: length_Suc_conv eval_nat_numeral)
    from assms Some f have bad: "d \<notin> set ''5678'' \<or> p \<notin> set ''NOE'' \<or> s \<notin> set ''12''"
      by (simp add: spec_format_ok_def)
    then consider "d \<notin> set ''5678''" | "d \<in> set ''5678''" "p \<notin> set ''NOE''"
      | "d \<in> set ''5678''" "p \<in> set ''NOE''" "s \<notin> set ''12''"
      by blast
    then show ?thesis
    proof cases
      case 1
      then have "datasize d (c_cflag (settings w) OR (CLOCAL OR CREAD)) = None"
        using datasize_Some_iff by fastforce
      with Some f show ?thesis by (simp add: SerialInit_def)
    next
      case 2
      then obtain y where y: "datasize d (c_cflag (settings w) OR (CLOCAL OR CREAD)) = Some y"
        using datasize_Some_iff by blast
      from 2 have "parity p y = None" using parity_Some_iff by fastforce
      with Some f y show ?thesis by (simp add: SerialInit_def)
    next
      case 3
      then obtain y where y: "datasize d (c_cflag (settings w) OR (CLOCAL OR CREAD)) = Some y"
        using datasize_Some_iff by blast
      from 3 obtain z where z: "parity p y = Some z" using parity_Some_iff by blast
      from 3 have "stopbit s z = None" using stopbit_Some_iff by fastforce
      with Some f y z show ?thesis by (simp add: SerialInit_def)
    qed
  qed
qed

lemma SerialInit_accepts:
  assumes ok: "spec_format_ok format" and fd: "0 \<le> fd w"
    and io: "ioctl_answers w = 0 # 0 # rest"
  shows "\<exists>w'. SerialInit baud format rtscts w = Inr (SERIAL_OK, w')
           \<and> ioctl_answers w' = rest \<and> settings w' = driver w'
           \<and> c_cc_VMIN (settings w') = 0 \<and> c_cc_VTIME (settings w') = 0"
proof -
  from ok obtain d p s where f: "format = Some [d, p, s]"
    and d: "d \<in> set ''5678''" and p: "p \<in> set ''NOE''" and s: "s \<in> set ''12''"
    by (auto simp: spec_format_ok_def split: option.splits list.splits)
  from d obtain y where y: "datasize d (c_cflag (settings w) OR (CLOCAL OR CREAD)) = Some y"
    using datasize_Some_iff by blast
  from p obtain z where z: "parity p y = Some z" using parity_Some_iff by blast
  from s obtain u where u: "stopbit s z = Some u" using stopbit_Some_iff by blast
  obtain c4 sp where b: "baudrate baud u = (c4, sp)" by (cases "baudrate baud u")
  show ?thesis
    using fd io
    by (simp add: SerialInit_def f strlen_def y z u b sys_ioctl_TCSETS2_open
        sys_ioctl_TCGETS2_open SerialFlush_def sys_tcflush_def Let_def)
qed

text \<open>
  Claim C9: on an open port whose driver accepts the two \<^verbatim>\<open>ioctl\<close> calls,
  \<^verbatim>\<open>SerialInit\<close> returns \<^verbatim>\<open>SERIAL_OK\<close> for every format of the specification's sets;
  for any other format, a null pointer and a string of another length included, it
  returns \<^verbatim>\<open>SERIAL_ERR_INIT\<close> and the world is as before: no system call was made
  and neither the driver's configuration nor \<^verbatim>\<open>settings\<close> has changed.
\<close>

theorem C9_SerialInit_format:
  "(spec_format_ok format \<and> 0 \<le> fd w \<and> ioctl_answers w = 0 # 0 # rest \<longrightarrow>
      (\<exists>w'. SerialInit baud format rtscts w = Inr (SERIAL_OK, w')
         \<and> ioctl_answers w' = rest \<and> settings w' = driver w'))
   \<and> (\<not> spec_format_ok format \<longrightarrow> SerialInit baud format rtscts w = Inr (SERIAL_ERR_INIT, w))"
  using SerialInit_accepts [of format w rest baud rtscts] SerialInit_rejects [of format baud rtscts w]
  by blast

theorem C9_SerialInit_format_witness:
  "(\<exists>w'. SerialInit 10416 (Some ''8N1'') 0 (initial_world\<lparr>fd := 3, ioctl_answers := [0, 0]\<rparr>)
        = Inr (SERIAL_OK, w') \<and> ioctl_answers w' = [] \<and> settings w' = driver w')
   \<and> SerialInit 10416 (Some ''9N1'') 0 (initial_world\<lparr>fd := 3, ioctl_answers := [0, 0]\<rparr>)
        = Inr (SERIAL_ERR_INIT, initial_world\<lparr>fd := 3, ioctl_answers := [0, 0]\<rparr>)
   \<and> SerialInit 10416 None 0 (initial_world\<lparr>fd := 3, ioctl_answers := [0, 0]\<rparr>)
        = Inr (SERIAL_ERR_INIT, initial_world\<lparr>fd := 3, ioctl_answers := [0, 0]\<rparr>)
   \<and> SerialInit 10416 (Some ''8N'') 0 (initial_world\<lparr>fd := 3, ioctl_answers := [0, 0]\<rparr>)
        = Inr (SERIAL_ERR_INIT, initial_world\<lparr>fd := 3, ioctl_answers := [0, 0]\<rparr>)"
proof -
  have a: "spec_format_ok (Some ''8N1'')" "\<not> spec_format_ok (Some ''9N1'')"
    "\<not> spec_format_ok None" "\<not> spec_format_ok (Some ''8N'')"
    by (simp_all add: spec_format_ok_def)
  have h: "0 \<le> fd (initial_world\<lparr>fd := 3, ioctl_answers := [0, 0]\<rparr>)"
    "ioctl_answers (initial_world\<lparr>fd := 3, ioctl_answers := [0, 0]\<rparr>) = 0 # 0 # []"
    by simp_all
  show ?thesis
    using C9_SerialInit_format [of "Some ''8N1''" "initial_world\<lparr>fd := 3, ioctl_answers := [0, 0]\<rparr>" "[]" 10416 0]
      C9_SerialInit_format [of "Some ''9N1''" "initial_world\<lparr>fd := 3, ioctl_answers := [0, 0]\<rparr>" "[]" 10416 0]
      C9_SerialInit_format [of "None" "initial_world\<lparr>fd := 3, ioctl_answers := [0, 0]\<rparr>" "[]" 10416 0]
      C9_SerialInit_format [of "Some ''8N''" "initial_world\<lparr>fd := 3, ioctl_answers := [0, 0]\<rparr>" "[]" 10416 0]
      a h by simp
qed


subsection \<open>Sending\<close>

declare SerialSendBuffer_loop.simps [simp del]

lemma sys_write_Inr:
  assumes "sys_write buf count w = Inr (written, w1)"
  shows "(written < 0 \<and> sent w1 = sent w
            \<and> (\<exists>rs. write_answers w = WriteFails (errno w1) # rs))
       \<or> (0 \<le> written \<and> nat written \<le> count \<and> nat written \<le> length buf
            \<and> sent w1 = sent w @ take (nat written) buf)"
  using assms
  by (auto simp: sys_write_def split: list.splits write_answer.splits if_splits)

lemma send_loop_sent:
  "SerialSendBuffer_loop buf len w = Inr (r, w') \<Longrightarrow>
     (r = SERIAL_OK \<or> r = SERIAL_ERR_WRITE)
     \<and> (\<exists>n. n \<le> len \<and> n \<le> length buf \<and> sent w' = sent w @ take n buf
            \<and> (r = SERIAL_OK \<longrightarrow> n = len))"
proof (induction buf len w rule: SerialSendBuffer_loop.induct)
  case (1 buf len w)
  show ?case
  proof (cases "0 < len")
    case False
    with "1.prems" show ?thesis by (simp add: SerialSendBuffer_loop.simps [of buf len w])
  next
    case True
    from "1.prems" True obtain written w1 where sw: "sys_write buf len w = Inr (written, w1)"
      by (auto simp: SerialSendBuffer_loop.simps [of buf len w] split: sum.splits)
    show ?thesis
    proof (cases "written < 0")
      case neg: True
      with sys_write_Inr [OF sw] have s1: "sent w1 = sent w" by auto
      show ?thesis
      proof (cases "errno w1 = EINTR")
        case True
        with "1.prems" \<open>0 < len\<close> sw neg
        have "SerialSendBuffer_loop buf len w1 = Inr (r, w')"
          by (simp add: SerialSendBuffer_loop.simps [of buf len w])
        from "1.IH"(1) [OF \<open>0 < len\<close> sw refl neg True this] s1
        show ?thesis by simp
      next
        case False
        with "1.prems" \<open>0 < len\<close> sw neg have "r = SERIAL_ERR_WRITE" "w' = w1"
          by (simp_all add: SerialSendBuffer_loop.simps [of buf len w])
        with s1 show ?thesis by (intro conjI exI [of _ 0]) simp_all
      qed
    next
      case nonneg: False
      with sys_write_Inr [OF sw] have m: "nat written \<le> len" "nat written \<le> length buf"
        and s1: "sent w1 = sent w @ take (nat written) buf" by auto
      from "1.prems" \<open>0 < len\<close> sw nonneg
      have "SerialSendBuffer_loop (drop (nat written) buf) (len - nat written) w1 = Inr (r, w')"
        by (simp add: SerialSendBuffer_loop.simps [of buf len w])
      from "1.IH"(2) [OF \<open>0 < len\<close> sw refl nonneg this]
      obtain n where r: "r = SERIAL_OK \<or> r = SERIAL_ERR_WRITE"
        and n: "n \<le> len - nat written" "n \<le> length (drop (nat written) buf)"
        and s: "sent w' = sent w1 @ take n (drop (nat written) buf)"
        and ok: "r = SERIAL_OK \<longrightarrow> n = len - nat written"
        by blast
      have "take (nat written + n) buf = take (nat written) buf @ take n (drop (nat written) buf)"
        by (simp add: take_add)
      with s s1 have "sent w' = sent w @ take (nat written + n) buf" by simp
      moreover have "nat written + n \<le> len" "nat written + n \<le> length buf"
        using n m by simp_all
      moreover have "r = SERIAL_OK \<longrightarrow> nat written + n = len" using ok m by simp
      ultimately show ?thesis using r by blast
    qed
  qed
qed


lemma send_loop_EINTR:
  assumes "0 < len" and "write_answers w = WriteFails EINTR # rest"
  shows "SerialSendBuffer_loop buf len w =
     SerialSendBuffer_loop buf len
       (w\<lparr>errno := EINTR, write_answers := rest, calls := calls w @ [Call_write (fd w) len]\<rparr>)"
  using assms by (simp add: SerialSendBuffer_loop.simps [of buf len w] sys_write_def)

lemma send_loop_error:
  assumes "0 < len" and "write_answers w = WriteFails e # rest" and "e \<noteq> EINTR"
  shows "SerialSendBuffer_loop buf len w =
     Inr (SERIAL_ERR_WRITE,
       w\<lparr>errno := e, write_answers := rest, calls := calls w @ [Call_write (fd w) len]\<rparr>)"
  using assms by (simp add: SerialSendBuffer_loop.simps [of buf len w] sys_write_def)

lemma send_loop_partial:
  assumes "0 < len" and "write_answers w = WriteTakes k # rest" and "min k len \<le> length buf"
  shows "SerialSendBuffer_loop buf len w =
     SerialSendBuffer_loop (drop (min k len) buf) (len - min k len)
       (w\<lparr>write_answers := rest, sent := sent w @ take (min k len) buf,
          calls := calls w @ [Call_write (fd w) len]\<rparr>)"
proof -
  from assms(3) have "\<not> length buf < min k len" by linarith
  with assms(1,2) show ?thesis
    by (auto simp: SerialSendBuffer_loop.simps [of buf len w] sys_write_def)
qed

text \<open>
  Claim C6. Whenever \<^verbatim>\<open>SerialSendBuffer\<close> returns, it returns \<^verbatim>\<open>SERIAL_OK\<close> or
  \<^verbatim>\<open>SERIAL_ERR_WRITE\<close>, and the driver has taken a prefix of the \<open>len\<close> bytes at
  \<open>buf\<close>, in order; when it returns \<^verbatim>\<open>SERIAL_OK\<close> the driver has taken all \<open>len\<close> of
  them. On an open port with bytes left to send, a \<^verbatim>\<open>write\<close> interrupted by \<^verbatim>\<open>EINTR\<close>
  is followed by the same call on the same remainder; any other failure of \<^verbatim>\<open>write\<close>
  ends the call at once with \<^verbatim>\<open>SERIAL_ERR_WRITE\<close>; and after a \<^verbatim>\<open>write\<close> that took
  part of the bytes the call goes on with the bytes not yet sent.
\<close>

theorem C6_SerialSendBuffer_all_or_error:
  "(SerialSendBuffer buf len w = Inr (r, w') \<longrightarrow>
      (r = SERIAL_OK \<or> r = SERIAL_ERR_WRITE)
      \<and> (r = SERIAL_OK \<longrightarrow> len \<le> length buf \<and> sent w' = sent w @ take len buf)
      \<and> (\<exists>n. n \<le> len \<and> sent w' = sent w @ take n buf))
   \<and> (0 \<le> fd w \<and> 0 < len \<and> write_answers w = WriteFails EINTR # rest \<longrightarrow>
        SerialSendBuffer buf len w =
        SerialSendBuffer buf len
          (w\<lparr>errno := EINTR, write_answers := rest, calls := calls w @ [Call_write (fd w) len]\<rparr>))
   \<and> (0 \<le> fd w \<and> 0 < len \<and> write_answers w = WriteFails e # rest \<and> e \<noteq> EINTR \<longrightarrow>
        SerialSendBuffer buf len w =
        Inr (SERIAL_ERR_WRITE,
          w\<lparr>errno := e, write_answers := rest, calls := calls w @ [Call_write (fd w) len]\<rparr>))
   \<and> (0 \<le> fd w \<and> 0 < len \<and> write_answers w = WriteTakes k # rest \<and> min k len \<le> length buf \<longrightarrow>
        SerialSendBuffer buf len w =
        SerialSendBuffer (drop (min k len) buf) (len - min k len)
          (w\<lparr>write_answers := rest, sent := sent w @ take (min k len) buf,
             calls := calls w @ [Call_write (fd w) len]\<rparr>))"
proof (intro conjI impI)
  assume a: "SerialSendBuffer buf len w = Inr (r, w')"
  show "r = SERIAL_OK \<or> r = SERIAL_ERR_WRITE"
    using a send_loop_sent [of buf len w r w']
    by (auto simp: SerialSendBuffer_def split: if_splits)
  show "\<exists>n. n \<le> len \<and> sent w' = sent w @ take n buf"
  proof (cases "fd w < 0")
    case True
    with a have "w' = w" by (simp add: SerialSendBuffer_def)
    then show ?thesis by (intro exI [of _ 0]) simp
  next
    case False
    with a send_loop_sent [of buf len w r w'] show ?thesis
      by (auto simp: SerialSendBuffer_def)
  qed
  assume ok: "r = SERIAL_OK"
  with a have "SerialSendBuffer_loop buf len w = Inr (r, w')"
    by (auto simp: SerialSendBuffer_def split: if_splits)
  from send_loop_sent [OF this] ok
  show "len \<le> length buf" and "sent w' = sent w @ take len buf" by auto
next
  assume "0 \<le> fd w \<and> 0 < len \<and> write_answers w = WriteFails EINTR # rest"
  then show "SerialSendBuffer buf len w =
        SerialSendBuffer buf len
          (w\<lparr>errno := EINTR, write_answers := rest, calls := calls w @ [Call_write (fd w) len]\<rparr>)"
    using send_loop_EINTR [of len w rest buf] by (simp add: SerialSendBuffer_def)
next
  assume "0 \<le> fd w \<and> 0 < len \<and> write_answers w = WriteFails e # rest \<and> e \<noteq> EINTR"
  then show "SerialSendBuffer buf len w =
        Inr (SERIAL_ERR_WRITE,
          w\<lparr>errno := e, write_answers := rest, calls := calls w @ [Call_write (fd w) len]\<rparr>)"
    using send_loop_error [of len w e rest buf] by (simp add: SerialSendBuffer_def)
next
  assume "0 \<le> fd w \<and> 0 < len \<and> write_answers w = WriteTakes k # rest \<and> min k len \<le> length buf"
  then show "SerialSendBuffer buf len w =
        SerialSendBuffer (drop (min k len) buf) (len - min k len)
          (w\<lparr>write_answers := rest, sent := sent w @ take (min k len) buf,
             calls := calls w @ [Call_write (fd w) len]\<rparr>)"
    using send_loop_partial [of len w k rest buf] by (simp add: SerialSendBuffer_def)
qed

theorem C6_SerialSendBuffer_all_or_error_witness:
  "SerialSendBuffer [1, 2, 3] 3 send_world =
     Inr (SERIAL_OK, send_world\<lparr>errno := EINTR, write_answers := [], sent := [1, 2, 3],
       calls := [Call_write 3 3, Call_write 3 2, Call_write 3 2]\<rparr>)
   \<and> sent (send_world\<lparr>errno := EINTR, write_answers := [], sent := [1, 2, 3],
       calls := [Call_write 3 3, Call_write 3 2, Call_write 3 2]\<rparr>)
       = sent send_world @ take 3 [1, 2, 3]
   \<and> SerialSendBuffer [1, 2, 3] 3 send_world =
       SerialSendBuffer [2, 3] 2
         (send_world\<lparr>write_answers := [WriteFails EINTR, WriteTakes 5], sent := [1],
            calls := [Call_write 3 3]\<rparr>)
   \<and> SerialSendBuffer [2, 3] 2 (send_world\<lparr>write_answers := [WriteFails EINTR, WriteTakes 5]\<rparr>) =
       SerialSendBuffer [2, 3] 2
         (send_world\<lparr>errno := EINTR, write_answers := [WriteTakes 5], calls := [Call_write 3 2]\<rparr>)
   \<and> SerialSendBuffer [2, 3] 2 (send_world\<lparr>write_answers := [WriteFails 5, WriteTakes 5]\<rparr>) =
       Inr (SERIAL_ERR_WRITE,
         send_world\<lparr>errno := 5, write_answers := [WriteTakes 5], calls := [Call_write 3 2]\<rparr>)"
proof -
  let ?final = "send_world\<lparr>errno := EINTR, write_answers := [], sent := [1, 2, 3],
       calls := [Call_write 3 3, Call_write 3 2, Call_write 3 2]\<rparr>"
  have run: "SerialSendBuffer [1, 2, 3] 3 send_world = Inr (SERIAL_OK, ?final)"
    by (simp add: SerialSendBuffer_def send_world_def initial_world_def
        SerialSendBuffer_loop.simps sys_write_def)
  have f: "fd send_world = 3" "calls send_world = []" "sent send_world = []"
    "write_answers send_world = WriteTakes 1 # [WriteFails EINTR, WriteTakes 5]"
    by (simp_all add: send_world_def initial_world_def)
  note a = C6_SerialSendBuffer_all_or_error
    [of "[1, 2, 3]" 3 send_world SERIAL_OK ?final "[WriteFails EINTR, WriteTakes 5]" 0 1]
  note b = C6_SerialSendBuffer_all_or_error
    [of "[2, 3]" 2 "send_world\<lparr>write_answers := [WriteFails EINTR, WriteTakes 5]\<rparr>"
        SERIAL_OK send_world "[WriteTakes 5]" 0 0]
  note c = C6_SerialSendBuffer_all_or_error
    [of "[2, 3]" 2 "send_world\<lparr>write_answers := [WriteFails 5, WriteTakes 5]\<rparr>"
        SERIAL_OK send_world "[WriteTakes 5]" 5 0]
  have 1: "sent ?final = sent send_world @ take 3 [1, 2, 3]"
    using a run by blast
  have 2: "SerialSendBuffer [1, 2, 3] 3 send_world =
       SerialSendBuffer [2, 3] 2
         (send_world\<lparr>write_answers := [WriteFails EINTR, WriteTakes 5], sent := [1],
            calls := [Call_write 3 3]\<rparr>)"
    using a f by simp
  have 3: "SerialSendBuffer [2, 3] 2 (send_world\<lparr>write_answers := [WriteFails EINTR, WriteTakes 5]\<rparr>) =
       SerialSendBuffer [2, 3] 2
         (send_world\<lparr>errno := EINTR, write_answers := [WriteTakes 5], calls := [Call_write 3 2]\<rparr>)"
    using b f by simp
  have 4: "SerialSendBuffer [2, 3] 2 (send_world\<lparr>write_answers := [WriteFails 5, WriteTakes 5]\<rparr>) =
       Inr (SERIAL_ERR_WRITE,
         send_world\<lparr>errno := 5, write_answers := [WriteTakes 5], calls := [Call_write 3 2]\<rparr>)"
    using c f by simp
  from run 1 2 3 4 show ?thesis by blast
qed


subsection \<open>Receiving\<close>

declare SerialReceiveBuffer_loop.simps [simp del]

lemma pending_Cons: "pending (a # rs) = bytes_of a @ pending rs"
  by (simp add: pending_def)

lemma sys_read_Inr:
  assumes "sys_read count w = Inr (received, data, w1)"
  shows "length data \<le> count \<and> delivered w1 = delivered w @ data
     \<and> pending (read_answers w) = data @ pending (read_answers w1)
     \<and> (received < 0 \<and> data = [] \<or> received = int (length data))
     \<and> fd w1 = fd w \<and> exp_arr w1 = exp_arr w \<and> btn w1 = btn w
     \<and> console w1 = console w \<and> settings w1 = settings w"
proof (cases "read_answers w")
  case Nil
  with assms show ?thesis by (simp add: sys_read_def)
next
  case (Cons a rs)
  show ?thesis
  proof (cases a)
    case (ReadFails e)
    with Cons assms show ?thesis by (auto simp: sys_read_def pending_Cons)
  next
    case (ReadGives bs)
    with Cons assms show ?thesis by (auto simp: sys_read_def pending_Cons)
  qed
qed

lemma store_take:
  "off + length d \<le> length buf \<Longrightarrow>
     take (off + length d) (take off buf @ d @ drop (off + length d) buf) = take off buf @ d"
  by simp

lemma store_drop:
  "off + length d \<le> length buf \<Longrightarrow>
     drop (off + length d + k) (take off buf @ d @ drop (off + length d) buf)
       = drop (off + length d + k) buf"
  by (simp add: add.commute add.left_commute)

lemma recv_loop_post:
  "SerialReceiveBuffer_loop buf off len length' timeout w = Inr (r, buf', n, w') \<Longrightarrow>
     \<exists>got. recv_post buf off len length' timeout w r buf' n w' got"
proof (induction buf off len length' timeout w rule: SerialReceiveBuffer_loop.induct)
  case (1 buf off len length' timeout w)
  note eq = SerialReceiveBuffer_loop.simps [of buf off len length' timeout w]
  show ?case
  proof (cases "0 < len")
    case False
    with "1.prems" have "r = SERIAL_OK" "buf' = buf" "n = length'" "w' = w" "len = 0"
      by (simp_all add: eq)
    then have "recv_post buf off len length' timeout w r buf' n w' []"
      by (simp add: recv_post_def)
    then show ?thesis ..
  next
    case True
    from "1.prems" True obtain received data w1
      where sr: "sys_read len w = Inr (received, data, w1)"
      by (auto simp: eq split: sum.splits)
    from "1.prems" True sr have fits: "\<not> length buf < off + length data"
      by (auto simp: eq split: if_splits)
    define buf1 where "buf1 = take off buf @ data @ drop (off + length data) buf"
    define length1 where "length1 = (if 0 < received then length' + nat received else length')"
    note sys = sys_read_Inr [OF sr]
    show ?thesis
    proof (cases "received < 0")
      case neg: True
      with sys have d: "data = []" by auto
      then have b1: "buf1 = buf" by (simp add: buf1_def)
      from neg have l1: "length1 = length'" by (simp add: length1_def)
      show ?thesis
      proof (cases "errno w1 = EINTR")
        case True
        from "1.prems" \<open>0 < len\<close> sr fits neg True
        have "SerialReceiveBuffer_loop buf1 off len length1 timeout w1 = Inr (r, buf', n, w')"
          by (simp add: eq buf1_def length1_def Let_def)
        from "1.IH"(1) [OF \<open>0 < len\<close> sr refl refl fits buf1_def length1_def neg True this]
        obtain got where "recv_post buf1 off len length1 timeout w1 r buf' n w' got" ..
        then have "recv_post buf off len length' timeout w r buf' n w' got"
          using sys d by (simp add: recv_post_def b1 l1)
        then show ?thesis ..
      next
        case False
        from "1.prems" \<open>0 < len\<close> sr fits neg False
        have "r = SERIAL_ERR_READ" "buf' = buf1" "n = length1" "w' = w1"
          by (simp_all add: eq buf1_def length1_def Let_def)
        then have "recv_post buf off len length' timeout w r buf' n w' []"
          using sys d \<open>0 < len\<close> by (simp add: recv_post_def b1 l1)
        then show ?thesis ..
      qed
    next
      case nonneg: False
      with sys have rc: "received = int (length data)" by auto
      show ?thesis
      proof (cases "received = 0")
        case True
        with rc have d: "data = []" by simp
        then have b1: "buf1 = buf" by (simp add: buf1_def)
        from True have l1: "length1 = length'" by (simp add: length1_def)
        from "1.prems" \<open>0 < len\<close> sr fits True
        have "r = (if timeout < 0 then SERIAL_OK else SERIAL_ERR_TIMEOUT)"
          "buf' = buf1" "n = length1" "w' = w1"
          by (auto simp: eq buf1_def length1_def Let_def split: if_splits)
        then have "recv_post buf off len length' timeout w r buf' n w' []"
          using sys d \<open>0 < len\<close> by (simp add: recv_post_def b1 l1)
        then show ?thesis ..
      next
        case False
        with rc have pos: "0 < received" and nr: "nat received = length data" by simp_all
        from pos have l1: "length1 = length' + length data" by (simp add: length1_def nr)
        from fits have le: "off + length data \<le> length buf" by simp
        from "1.prems" \<open>0 < len\<close> sr fits nonneg False
        have "SerialReceiveBuffer_loop buf1 (off + nat received) (len - nat received)
                length1 timeout w1 = Inr (r, buf', n, w')"
          by (simp add: eq buf1_def length1_def Let_def)
        from "1.IH"(2) [OF \<open>0 < len\<close> sr refl refl fits buf1_def length1_def nonneg False this]
        obtain got where g: "recv_post buf1 (off + nat received) (len - nat received)
                length1 timeout w1 r buf' n w' got" ..
        from g have g1: "n = length1 + length got"
          and g2: "length got \<le> len - nat received"
          and g3: "buf' = take (off + nat received) buf1 @ got
                     @ drop (off + nat received + length got) buf1"
          and g4: "got = [] \<or> off + nat received + length got \<le> length buf1"
          and g5: "delivered w' = delivered w1 @ got"
          and g6: "pending (read_answers w1) = got @ pending (read_answers w')"
          and g7: "r = SERIAL_OK \<or> r = SERIAL_ERR_READ \<or> r = SERIAL_ERR_TIMEOUT"
          and g8: "r = SERIAL_OK \<or> length got < len - nat received"
          and g9: "r = SERIAL_OK \<and> 0 \<le> timeout \<longrightarrow> length got = len - nat received"
          and g10: "fd w' = fd w1" "exp_arr w' = exp_arr w1" "btn w' = btn w1"
            "console w' = console w1" "settings w' = settings w1"
          by (simp_all add: recv_post_def)
        from sys have s1: "length data \<le> len"
          and s2: "delivered w1 = delivered w @ data"
          and s3: "pending (read_answers w) = data @ pending (read_answers w1)"
          and s4: "fd w1 = fd w" "exp_arr w1 = exp_arr w" "btn w1 = btn w"
            "console w1 = console w" "settings w1 = settings w"
          by simp_all
        have lb: "length buf1 = length buf" using le by (simp add: buf1_def)
        have t: "take (off + length data) buf1 = take off buf @ data"
          unfolding buf1_def using le by (rule store_take)
        have dr: "drop (off + length data + length got) buf1
                   = drop (off + length data + length got) buf"
          unfolding buf1_def using le by (rule store_drop)
        have "recv_post buf off len length' timeout w r buf' n w' (data @ got)"
          unfolding recv_post_def
        proof (intro conjI)
          show "n = length' + length (data @ got)" using g1 l1 by simp
          show "length (data @ got) \<le> len" using g2 s1 nr by simp
          show "buf' = take off buf @ (data @ got) @ drop (off + length (data @ got)) buf"
            using g3 t dr by (simp add: nr add.assoc)
          show "data @ got = [] \<or> off + length (data @ got) \<le> length buf"
            using g4 le lb nr by auto
          show "delivered w' = delivered w @ data @ got" using g5 s2 by simp
          show "pending (read_answers w) = (data @ got) @ pending (read_answers w')"
            using g6 s3 by simp
          show "r = SERIAL_OK \<or> r = SERIAL_ERR_READ \<or> r = SERIAL_ERR_TIMEOUT" by (rule g7)
          show "r = SERIAL_OK \<or> length (data @ got) < len" using g8 s1 nr by auto
          show "r = SERIAL_OK \<and> 0 \<le> timeout \<longrightarrow> length (data @ got) = len"
            using g9 s1 nr by auto
          show "fd w' = fd w" "exp_arr w' = exp_arr w" "btn w' = btn w"
            "console w' = console w" "settings w' = settings w"
            using g10 s4 by simp_all
        qed
        then show ?thesis ..
      qed
    qed
  qed
qed


lemma SerialSetTimeout_frame:
  assumes "SerialSetTimeout ms w = Inr (x, w1)"
  shows "read_answers w1 = read_answers w \<and> delivered w1 = delivered w \<and> fd w1 = fd w
     \<and> exp_arr w1 = exp_arr w \<and> btn w1 = btn w \<and> console w1 = console w"
  using assms
  by (auto simp: SerialSetTimeout_def sys_ioctl_TCSETS2_def
      split: if_splits list.splits sum.splits)

lemma SerialSetTimeout_returns:
  assumes "0 \<le> fd w" and "ioctl_answers w \<noteq> []" and "ms \<le> INT_MAX - 99"
  shows "\<exists>x w1. SerialSetTimeout ms w = Inr (x, w1)"
proof -
  from assms(2) obtain r rs where "ioctl_answers w = r # rs" by (cases "ioctl_answers w") auto
  with assms(1,3) show ?thesis
    by (simp add: SerialSetTimeout_def sys_ioctl_TCSETS2_open)
qed

lemma SerialReceiveBuffer_post:
  assumes "0 \<le> fd w" and "SerialReceiveBuffer buf len timeout w = Inr (r, buf', n, w')"
  shows "\<exists>x w1 got. SerialSetTimeout timeout w = Inr (x, w1)
           \<and> recv_post buf 0 len 0 timeout w1 r buf' n w' got"
proof -
  from assms obtain x w1 where st: "SerialSetTimeout timeout w = Inr (x, w1)"
    and lp: "SerialReceiveBuffer_loop buf 0 len 0 timeout w1 = Inr (r, buf', n, w')"
    by (auto simp: SerialReceiveBuffer_def split: sum.splits)
  from recv_loop_post [OF lp] st show ?thesis by blast
qed

lemma recv_loop_EINTR:
  assumes "0 < len" and "off \<le> length buf" and "read_answers w = ReadFails EINTR # rest"
  shows "SerialReceiveBuffer_loop buf off len length' timeout w =
     SerialReceiveBuffer_loop buf off len length' timeout
       (w\<lparr>errno := EINTR, read_answers := rest, calls := calls w @ [Call_read (fd w) len]\<rparr>)"
  using assms
  by (simp add: SerialReceiveBuffer_loop.simps [of buf off len length' timeout w] sys_read_def)

text \<open>
  Claim C5 says that on every return \<^verbatim>\<open>*len\<close> is the number of bytes collected. On a
  port that was never opened the call returns before it touches \<^verbatim>\<open>*len\<close>: asked for
  two bytes it hands back \<^verbatim>\<open>*len = 2\<close> although \<^verbatim>\<open>read\<close> was not called and no byte was
  delivered.
\<close>

theorem C5_closed_port_len_counterexample:
  "SerialReceiveBuffer [0, 0] 2 0 initial_world = Inr (SERIAL_ERR_READ, [0, 0], 2, initial_world)
   \<and> delivered initial_world = []
   \<and> (2::nat) \<noteq> length (delivered initial_world) - length (delivered initial_world)"
  by (simp add: SerialReceiveBuffer_def initial_world_def)


text \<open>
  Claim C5 as amended. On an open port, whenever \<^verbatim>\<open>SerialReceiveBuffer\<close> returns,
  \<^verbatim>\<open>*len\<close> is the number of bytes collected and is at most the length asked for; the
  bytes collected are the first \<^verbatim>\<open>*len\<close> bytes of the buffer, they are exactly what
  \<^verbatim>\<open>read\<close> delivered during the call, in order, and what the line still holds
  follows them, so no byte is lost whatever interruptions occurred; the rest of the
  buffer is untouched. A \<^verbatim>\<open>read\<close> interrupted by \<^verbatim>\<open>EINTR\<close> is followed by the same call
  at the same fill position with the same remaining length and count. On a port that
  was never opened the call returns \<^verbatim>\<open>SERIAL_ERR_READ\<close> and \<^verbatim>\<open>*len\<close> stays as passed.
\<close>

theorem C5_SerialReceiveBuffer_collects:
  "(0 \<le> fd w \<and> SerialReceiveBuffer buf len timeout w = Inr (r, buf', n, w') \<longrightarrow>
      n \<le> len \<and> length buf' = length buf
      \<and> delivered w' = delivered w @ take n buf'
      \<and> pending (read_answers w) = take n buf' @ pending (read_answers w')
      \<and> drop n buf' = drop n buf)
   \<and> (0 < len \<and> off \<le> length buf \<and> read_answers w = ReadFails EINTR # rest \<longrightarrow>
        SerialReceiveBuffer_loop buf off len length' timeout w =
        SerialReceiveBuffer_loop buf off len length' timeout
          (w\<lparr>errno := EINTR, read_answers := rest, calls := calls w @ [Call_read (fd w) len]\<rparr>))
   \<and> (fd w < 0 \<longrightarrow> SerialReceiveBuffer buf len timeout w = Inr (SERIAL_ERR_READ, buf, len, w))"
proof (intro conjI impI)
  assume a: "0 \<le> fd w \<and> SerialReceiveBuffer buf len timeout w = Inr (r, buf', n, w')"
  then obtain x w1 got where st: "SerialSetTimeout timeout w = Inr (x, w1)"
    and p: "recv_post buf 0 len 0 timeout w1 r buf' n w' got"
    using SerialReceiveBuffer_post by blast
  from p have n: "n = length got" and le: "length got \<le> len"
    and b: "buf' = got @ drop (length got) buf"
    and fit: "got = [] \<or> length got \<le> length buf"
    and d: "delivered w' = delivered w1 @ got"
    and q: "pending (read_answers w1) = got @ pending (read_answers w')"
    by (simp_all add: recv_post_def)
  note fr = SerialSetTimeout_frame [OF st]
  show "n \<le> len" using n le by simp
  show "length buf' = length buf" using b fit by auto
  show "delivered w' = delivered w @ take n buf'" using d fr n b by simp
  show "pending (read_answers w) = take n buf' @ pending (read_answers w')"
    using q fr n b by simp
  show "drop n buf' = drop n buf" using n b by simp
next
  assume "0 < len \<and> off \<le> length buf \<and> read_answers w = ReadFails EINTR # rest"
  then show "SerialReceiveBuffer_loop buf off len length' timeout w =
        SerialReceiveBuffer_loop buf off len length' timeout
          (w\<lparr>errno := EINTR, read_answers := rest, calls := calls w @ [Call_read (fd w) len]\<rparr>)"
    using recv_loop_EINTR by blast
next
  assume "fd w < 0"
  then show "SerialReceiveBuffer buf len timeout w = Inr (SERIAL_ERR_READ, buf, len, w)"
    by (simp add: SerialReceiveBuffer_def)
qed

theorem C5_SerialReceiveBuffer_collects_witness:
  "SerialReceiveBuffer [0, 0] 2 0 recv_world = Inr (SERIAL_OK, [0x12, 0x34], 2,
     recv_world\<lparr>settings := zero_termios\<lparr>c_cc_VMIN := 1\<rparr>,
       driver := zero_termios\<lparr>c_cc_VMIN := 1\<rparr>, errno := EINTR, ioctl_answers := [0],
       read_answers := [ReadGives [0x56]], delivered := [0x12, 0x34],
       calls := [Call_TCSETS2 3 (zero_termios\<lparr>c_cc_VMIN := 1\<rparr>), Call_read 3 2, Call_read 3 1,
                 Call_read 3 1]\<rparr>)
   \<and> pending (read_answers recv_world) = take 2 [0x12, 0x34] @ pending [ReadGives [0x56]]
   \<and> SerialReceiveBuffer_loop [0x12, 0] 1 1 1 0
         (recv_world\<lparr>read_answers := [ReadFails EINTR, ReadGives [0x34, 0x56]]\<rparr>) =
       SerialReceiveBuffer_loop [0x12, 0] 1 1 1 0
         (recv_world\<lparr>errno := EINTR, read_answers := [ReadGives [0x34, 0x56]],
            calls := [Call_read 3 1]\<rparr>)
   \<and> SerialReceiveBuffer [0, 0] 2 0 (recv_world\<lparr>fd := - 1\<rparr>)
       = Inr (SERIAL_ERR_READ, [0, 0], 2, recv_world\<lparr>fd := - 1\<rparr>)"
proof -
  let ?final = "recv_world\<lparr>settings := zero_termios\<lparr>c_cc_VMIN := 1\<rparr>,
       driver := zero_termios\<lparr>c_cc_VMIN := 1\<rparr>, errno := EINTR, ioctl_answers := [0],
       read_answers := [ReadGives [0x56]], delivered := [0x12, 0x34],
       calls := [Call_TCSETS2 3 (zero_termios\<lparr>c_cc_VMIN := 1\<rparr>), Call_read 3 2, Call_read 3 1,
                 Call_read 3 1]\<rparr>"
  let ?mid = "recv_world\<lparr>read_answers := [ReadFails EINTR, ReadGives [0x34, 0x56]]\<rparr>"
  have run: "SerialReceiveBuffer [0, 0] 2 0 recv_world = Inr (SERIAL_OK, [0x12, 0x34], 2, ?final)"
    by (simp add: SerialReceiveBuffer_def recv_world_def initial_world_def SerialSetTimeout_def
        sys_ioctl_TCSETS2_def c_div_def SerialReceiveBuffer_loop.simps sys_read_def Let_def
        zero_termios_def)
  have f: "fd recv_world = 3" "calls recv_world = []"
    by (simp_all add: recv_world_def initial_world_def)
  note a = C5_SerialReceiveBuffer_collects
    [where w = recv_world and buf = "[0, 0]" and len = 2 and timeout = 0 and r = SERIAL_OK
       and buf' = "[0x12, 0x34]" and n = 2 and w' = ?final]
  note b = C5_SerialReceiveBuffer_collects
    [where w = ?mid and buf = "[0x12, 0]" and len = 1 and off = 1 and length' = 1
       and timeout = 0 and rest = "[ReadGives [0x34, 0x56]]"]
  note c = C5_SerialReceiveBuffer_collects
    [where w = "recv_world\<lparr>fd := - 1\<rparr>" and buf = "[0, 0]" and len = 2 and timeout = 0]
  have 1: "pending (read_answers recv_world) = take 2 [0x12, 0x34] @ pending [ReadGives [0x56]]"
    using a run f by simp
  have 2: "SerialReceiveBuffer_loop [0x12, 0] 1 1 1 0 ?mid =
       SerialReceiveBuffer_loop [0x12, 0] 1 1 1 0
         (recv_world\<lparr>errno := EINTR, read_answers := [ReadGives [0x34, 0x56]],
            calls := [Call_read 3 1]\<rparr>)"
    using b f by simp
  have 3: "SerialReceiveBuffer [0, 0] 2 0 (recv_world\<lparr>fd := - 1\<rparr>)
       = Inr (SERIAL_ERR_READ, [0, 0], 2, recv_world\<lparr>fd := - 1\<rparr>)"
    using c by simp
  from run 1 2 3 show ?thesis by blast
qed

lemma recv_loop_chunk:
  assumes "bs \<noteq> []" and "length bs \<le> len" and "off + length bs \<le> length buf"
    and "read_answers w = ReadGives bs # rs"
  shows "SerialReceiveBuffer_loop buf off len length' timeout w =
     SerialReceiveBuffer_loop (take off buf @ bs @ drop (off + length bs) buf)
       (off + length bs) (len - length bs) (length' + length bs) timeout
       (w\<lparr>read_answers := rs, delivered := delivered w @ bs,
          calls := calls w @ [Call_read (fd w) len]\<rparr>)"
proof -
  from assms(1,2) have "0 < len" by (cases bs) auto
  with assms show ?thesis
    by (simp add: SerialReceiveBuffer_loop.simps [of buf off len length' timeout w]
        sys_read_def Let_def)
qed

lemma recv_loop_zero:
  assumes "0 < len" and "off \<le> length buf" and "read_answers w = ReadGives [] # rs"
  shows "SerialReceiveBuffer_loop buf off len length' timeout w =
     Inr (if timeout < 0 then SERIAL_OK else SERIAL_ERR_TIMEOUT, buf, length',
       w\<lparr>read_answers := rs, delivered := delivered w,
         calls := calls w @ [Call_read (fd w) len]\<rparr>)"
  using assms
  by (simp add: SerialReceiveBuffer_loop.simps [of buf off len length' timeout w]
      sys_read_def Let_def)

lemma recv_loop_zero_read:
  assumes "list_all keeps_reading pre" and "read_answers w = pre @ ReadGives [] # rest"
    and "length (pending pre) < len" and "off + len \<le> length buf"
  shows "\<exists>w'. SerialReceiveBuffer_loop buf off len length' timeout w =
            Inr (if timeout < 0 then SERIAL_OK else SERIAL_ERR_TIMEOUT,
                 take off buf @ pending pre @ drop (off + length (pending pre)) buf,
                 length' + length (pending pre), w')
          \<and> read_answers w' = rest \<and> delivered w' = delivered w @ pending pre"
  using assms
proof (induction pre arbitrary: w buf off len length')
  case Nil
  then have "0 < len" "off \<le> length buf" "read_answers w = ReadGives [] # rest"
    by simp_all
  from recv_loop_zero [OF this, of length' timeout] show ?case
    by (simp add: pending_def)
next
  case (Cons a pre)
  show ?case
  proof (cases a)
    case (ReadFails e)
    with Cons.prems have e: "e = EINTR" and k: "list_all keeps_reading pre" by simp_all
    let ?w1 = "w\<lparr>errno := EINTR, read_answers := pre @ ReadGives [] # rest,
                 calls := calls w @ [Call_read (fd w) len]\<rparr>"
    from Cons.prems ReadFails e have
      step: "SerialReceiveBuffer_loop buf off len length' timeout w =
             SerialReceiveBuffer_loop buf off len length' timeout ?w1"
      by (intro recv_loop_EINTR) simp_all
    have p: "pending (a # pre) = pending pre" using ReadFails by (simp add: pending_Cons)
    from Cons.prems have "length (pending pre) < len" "off + len \<le> length buf"
      by (simp_all add: p)
    from Cons.IH [OF k _ this, of ?w1 length'] show ?thesis
      by (simp add: step p)
  next
    case (ReadGives bs)
    with Cons.prems have ne: "bs \<noteq> []" and k: "list_all keeps_reading pre" by simp_all
    have p: "pending (a # pre) = bs @ pending pre" using ReadGives by (simp add: pending_Cons)
    with Cons.prems have lt: "length bs + length (pending pre) < len"
      and fit: "off + len \<le> length buf" by simp_all
    let ?buf1 = "take off buf @ bs @ drop (off + length bs) buf"
    let ?w1 = "w\<lparr>read_answers := pre @ ReadGives [] # rest, delivered := delivered w @ bs,
                 calls := calls w @ [Call_read (fd w) len]\<rparr>"
    have le: "off + length bs \<le> length buf" using lt fit by simp
    have step: "SerialReceiveBuffer_loop buf off len length' timeout w =
       SerialReceiveBuffer_loop ?buf1 (off + length bs) (len - length bs) (length' + length bs)
         timeout ?w1"
      using Cons.prems(2) ReadGives lt le by (intro recv_loop_chunk [OF ne]) simp_all
    have lb: "length ?buf1 = length buf" using le by simp
    have ra1: "read_answers ?w1 = pre @ ReadGives [] # rest" by simp
    have h1: "length (pending pre) < len - length bs" using lt by simp
    have h2: "off + length bs + (len - length bs) \<le> length ?buf1"
      using lt fit lb by simp
    from Cons.IH [OF k ra1 h1 h2, of "length' + length bs"] obtain w' where
      r: "SerialReceiveBuffer_loop ?buf1 (off + length bs) (len - length bs)
            (length' + length bs) timeout ?w1 =
          Inr (if timeout < 0 then SERIAL_OK else SERIAL_ERR_TIMEOUT,
            take (off + length bs) ?buf1 @ pending pre
              @ drop (off + length bs + length (pending pre)) ?buf1,
            length' + length bs + length (pending pre), w')"
      and ra: "read_answers w' = rest" and d: "delivered w' = delivered ?w1 @ pending pre"
      by blast
    have t: "take (off + length bs) ?buf1 = take off buf @ bs"
      using le by (rule store_take)
    have dr: "drop (off + length bs + length (pending pre)) ?buf1
                = drop (off + length bs + length (pending pre)) buf"
      using le by (rule store_drop)
    show ?thesis
      unfolding step r t dr using ra d by (simp add: p add.assoc)
  qed
qed


text \<open>
  Claim C4. Let the port be open and let the line, after any number of interruptions
  and of reads that gave bytes, fewer in all than the \<open>len\<close> asked for, answer one
  \<^verbatim>\<open>read\<close> with zero bytes. Then \<^verbatim>\<open>SerialReceiveBuffer\<close> returns at that answer: with
  \<^verbatim>\<open>SERIAL_OK\<close> when the timeout is negative and with \<^verbatim>\<open>SERIAL_ERR_TIMEOUT\<close> when it is
  not, \<^verbatim>\<open>*len\<close> being the number of bytes collected so far (zero is possible) and the
  buffer holding them in order. (The timeout is at most \<^verbatim>\<open>INT_MAX - 99\<close>, so that
  \<^verbatim>\<open>ms + 99\<close> is defined, and the kernel answers the \<^verbatim>\<open>ioctl\<close> of \<^verbatim>\<open>SerialSetTimeout\<close>.)
\<close>

theorem C4_zero_read_ends_receive:
  assumes "0 \<le> fd w" and "ioctl_answers w \<noteq> []" and "timeout \<le> INT_MAX - 99"
    and "list_all keeps_reading pre" and "read_answers w = pre @ ReadGives [] # rest"
    and "length (pending pre) < len" and "len \<le> length buf"
  shows "\<exists>w'. SerialReceiveBuffer buf len timeout w =
            Inr (if timeout < 0 then SERIAL_OK else SERIAL_ERR_TIMEOUT,
                 pending pre @ drop (length (pending pre)) buf, length (pending pre), w')
          \<and> read_answers w' = rest \<and> delivered w' = delivered w @ pending pre"
proof -
  from SerialSetTimeout_returns [OF assms(1,2,3)] obtain x w1
    where st: "SerialSetTimeout timeout w = Inr (x, w1)" by blast
  note fr = SerialSetTimeout_frame [OF st]
  have ra: "read_answers w1 = pre @ ReadGives [] # rest" using fr assms(5) by simp
  have fit: "0 + len \<le> length buf" using assms(7) by simp
  from recv_loop_zero_read [OF assms(4) ra assms(6) fit, of 0 timeout]
  obtain w' where
    "SerialReceiveBuffer_loop buf 0 len 0 timeout w1 =
       Inr (if timeout < 0 then SERIAL_OK else SERIAL_ERR_TIMEOUT,
            take 0 buf @ pending pre @ drop (0 + length (pending pre)) buf,
            0 + length (pending pre), w')"
    and "read_answers w' = rest" and "delivered w' = delivered w1 @ pending pre"
    by blast
  then show ?thesis
    using assms(1) st fr by (simp add: SerialReceiveBuffer_def)
qed

theorem C4_zero_read_ends_receive_witness:
  "(\<exists>w'. SerialReceiveBuffer [0, 0] 2 100
          (recv_world\<lparr>read_answers := [ReadGives [0x12], ReadFails EINTR, ReadGives []]\<rparr>)
        = Inr (SERIAL_ERR_TIMEOUT, [0x12, 0], 1, w')
      \<and> read_answers w' = [] \<and> delivered w' = [0x12])
   \<and> (\<exists>w'. SerialReceiveBuffer [0, 0] 2 (- 1)
          (recv_world\<lparr>read_answers := [ReadGives [0x12], ReadFails EINTR, ReadGives []]\<rparr>)
        = Inr (SERIAL_OK, [0x12, 0], 1, w')
      \<and> read_answers w' = [] \<and> delivered w' = [0x12])
   \<and> (\<exists>w'. SerialReceiveBuffer [0, 0] 2 (- 1) (recv_world\<lparr>read_answers := [ReadGives []]\<rparr>)
        = Inr (SERIAL_OK, [0, 0], 0, w')
      \<and> read_answers w' = [] \<and> delivered w' = [])"
proof -
  let ?w = "recv_world\<lparr>read_answers := [ReadGives [0x12], ReadFails EINTR, ReadGives []]\<rparr>"
  let ?v = "recv_world\<lparr>read_answers := [ReadGives []]\<rparr>"
  have w: "0 \<le> fd ?w" "ioctl_answers ?w \<noteq> []" "(100::int) \<le> INT_MAX - 99"
    "list_all keeps_reading [ReadGives [0x12], ReadFails EINTR]"
    "read_answers ?w = [ReadGives [0x12], ReadFails EINTR] @ ReadGives [] # []"
    "length (pending [ReadGives [0x12], ReadFails EINTR]) < 2"
    "2 \<le> length [0::byte, 0]" "(- 1::int) \<le> INT_MAX - 99"
    by (simp_all add: recv_world_def initial_world_def pending_def)
  have v: "0 \<le> fd ?v" "ioctl_answers ?v \<noteq> []" "list_all keeps_reading []"
    "read_answers ?v = [] @ ReadGives [] # []" "length (pending []) < 2"
    by (simp_all add: recv_world_def initial_world_def pending_def)
  have p: "pending [ReadGives [0x12], ReadFails EINTR] = [0x12]" "pending [] = []"
    by (simp_all add: pending_def)
  from C4_zero_read_ends_receive [OF w(1,2,3,4,5,6,7)]
    C4_zero_read_ends_receive [OF w(1,2,8,4,5,6,7)]
    C4_zero_read_ends_receive [OF v(1,2) w(8) v(3,4,5) w(7)]
  show ?thesis
    unfolding p by (simp add: recv_world_def initial_world_def)
qed


lemma recv_loop_done:
  "SerialReceiveBuffer_loop buf off 0 length' timeout w = Inr (SERIAL_OK, buf, length', w)"
  by (simp add: SerialReceiveBuffer_loop.simps [of buf off 0 length' timeout w])

lemma recv_loop_chunk_split:
  assumes "0 < len" and "len < length bs" and "off + len \<le> length buf"
    and "read_answers w = ReadGives bs # rs"
  shows "SerialReceiveBuffer_loop buf off len length' timeout w =
     Inr (SERIAL_OK, take off buf @ take len bs @ drop (off + len) buf, length' + len,
       w\<lparr>read_answers := ReadGives (drop len bs) # rs, delivered := delivered w @ take len bs,
         calls := calls w @ [Call_read (fd w) len]\<rparr>)"
  using assms
  by (simp add: SerialReceiveBuffer_loop.simps [of buf off len length' timeout w]
      sys_read_def Let_def recv_loop_done min_def)

lemma recv_loop_prefix:
  assumes "list_all keeps_reading pre" and "read_answers w = pre @ rest"
    and "len \<le> length (pending pre)" and "off + len \<le> length buf"
  shows "\<exists>w' pre'. SerialReceiveBuffer_loop buf off len length' timeout w =
            Inr (SERIAL_OK, take off buf @ take len (pending pre) @ drop (off + len) buf,
                 length' + len, w')
          \<and> read_answers w' = pre' @ rest \<and> list_all keeps_reading pre'
          \<and> pending pre' = drop len (pending pre)
          \<and> delivered w' = delivered w @ take len (pending pre)
          \<and> ioctl_answers w' = ioctl_answers w"
  using assms
proof (induction pre arbitrary: w buf off len length')
  case Nil
  then have "len = 0" by (simp add: pending_def)
  with Nil show ?case by (simp add: recv_loop_done pending_def)
next
  case (Cons a pre)
  show ?case
  proof (cases "len = 0")
    case True
    with Cons.prems show ?thesis
      by (intro exI [of _ w] exI [of _ "a # pre"]) (simp add: recv_loop_done)
  next
    case False
    then have pos: "0 < len" by simp
    from Cons.prems have k: "list_all keeps_reading pre" by simp
    show ?thesis
    proof (cases a)
      case (ReadFails e)
      with Cons.prems have e: "e = EINTR" by simp
      let ?w1 = "w\<lparr>errno := EINTR, read_answers := pre @ rest,
                   calls := calls w @ [Call_read (fd w) len]\<rparr>"
      from Cons.prems ReadFails e pos have
        step: "SerialReceiveBuffer_loop buf off len length' timeout w =
               SerialReceiveBuffer_loop buf off len length' timeout ?w1"
        by (intro recv_loop_EINTR) simp_all
      have p: "pending (a # pre) = pending pre" using ReadFails by (simp add: pending_Cons)
      have ra1: "read_answers ?w1 = pre @ rest" by simp
      from Cons.prems have h: "len \<le> length (pending pre)" "off + len \<le> length buf"
        by (simp_all add: p)
      from Cons.IH [OF k ra1 h, of length'] show ?thesis
        unfolding step p by simp
    next
      case (ReadGives bs)
      with Cons.prems have ne: "bs \<noteq> []" by simp
      have p: "pending (a # pre) = bs @ pending pre" using ReadGives by (simp add: pending_Cons)
      from Cons.prems have fit: "off + len \<le> length buf"
        and le: "len \<le> length bs + length (pending pre)" by (simp_all add: p)
      from Cons.prems(2) ReadGives have ra: "read_answers w = ReadGives bs # (pre @ rest)"
        by simp
      show ?thesis
      proof (cases "len < length bs")
        case True
        let ?w' = "w\<lparr>read_answers := ReadGives (drop len bs) # (pre @ rest),
                     delivered := delivered w @ take len bs,
                     calls := calls w @ [Call_read (fd w) len]\<rparr>"
        have "SerialReceiveBuffer_loop buf off len length' timeout w =
                Inr (SERIAL_OK, take off buf @ take len bs @ drop (off + len) buf,
                     length' + len, ?w')"
          using pos True fit ra by (rule recv_loop_chunk_split)
        moreover have "list_all keeps_reading (ReadGives (drop len bs) # pre)"
          using True k by simp
        moreover have "pending (ReadGives (drop len bs) # pre) = drop len (pending (a # pre))"
          using True ReadGives by (simp add: pending_Cons)
        moreover have "take len (pending (a # pre)) = take len bs" using True by (simp add: p)
        ultimately show ?thesis
          by (intro exI [of _ ?w'] exI [of _ "ReadGives (drop len bs) # pre"]) simp
      next
        case False
        then have lb: "length bs \<le> len" by simp
        let ?buf1 = "take off buf @ bs @ drop (off + length bs) buf"
        let ?w1 = "w\<lparr>read_answers := pre @ rest, delivered := delivered w @ bs,
                     calls := calls w @ [Call_read (fd w) len]\<rparr>"
        have fb: "off + length bs \<le> length buf" using lb fit by simp
        have step: "SerialReceiveBuffer_loop buf off len length' timeout w =
           SerialReceiveBuffer_loop ?buf1 (off + length bs) (len - length bs)
             (length' + length bs) timeout ?w1"
          using ne lb fb ra by (rule recv_loop_chunk)
        have l1: "length ?buf1 = length buf" using fb by simp
        have ra1: "read_answers ?w1 = pre @ rest" by simp
        have h1: "len - length bs \<le> length (pending pre)" using le by simp
        have h2: "off + length bs + (len - length bs) \<le> length ?buf1"
          using lb fit l1 by simp
        from Cons.IH [OF k ra1 h1 h2, of "length' + length bs"] obtain w' pre' where
          r: "SerialReceiveBuffer_loop ?buf1 (off + length bs) (len - length bs)
                (length' + length bs) timeout ?w1 =
              Inr (SERIAL_OK,
                take (off + length bs) ?buf1 @ take (len - length bs) (pending pre)
                  @ drop (off + length bs + (len - length bs)) ?buf1,
                length' + length bs + (len - length bs), w')"
          and f: "read_answers w' = pre' @ rest" "list_all keeps_reading pre'"
            "pending pre' = drop (len - length bs) (pending pre)"
            "delivered w' = delivered ?w1 @ take (len - length bs) (pending pre)"
            "ioctl_answers w' = ioctl_answers ?w1"
          by blast
        have t: "take (off + length bs) ?buf1 = take off buf @ bs"
          using fb by (rule store_take)
        have dr: "drop (off + length bs + (len - length bs)) ?buf1
                    = drop (off + length bs + (len - length bs)) buf"
          using fb by (rule store_drop)
        have e: "off + length bs + (len - length bs) = off + len"
          "length' + length bs + (len - length bs) = length' + len" using lb by simp_all
        have tk: "take len (pending (a # pre)) = bs @ take (len - length bs) (pending pre)"
          using lb by (simp add: p)
        have dk: "drop len (pending (a # pre)) = drop (len - length bs) (pending pre)"
          using lb by (simp add: p)
        have dr2: "drop (off + len) ?buf1 = drop (off + len) buf"
          using dr unfolding e(1) .
        have r2: "SerialReceiveBuffer_loop buf off len length' timeout w =
              Inr (SERIAL_OK,
                (take off buf @ bs) @ take (len - length bs) (pending pre)
                  @ drop (off + len) buf,
                length' + len, w')"
          using r unfolding step e t dr2 .
        show ?thesis
          unfolding r2 tk dk using f
          by (intro exI [of _ w'] exI [of _ pre']) simp
      qed
    qed
  qed
qed


lemma SerialSetTimeout_open:
  assumes "0 \<le> fd w" and "ioctl_answers w = a # ios" and "ms \<le> INT_MAX - 99"
  shows "\<exists>x w1. SerialSetTimeout ms w = Inr (x, w1) \<and> ioctl_answers w1 = ios"
  using assms by (simp add: SerialSetTimeout_def sys_ioctl_TCSETS2_open)

lemma SerialReceiveBuffer_prefix:
  assumes "0 \<le> fd w" and "ioctl_answers w = a # ios" and "timeout \<le> INT_MAX - 99"
    and "list_all keeps_reading pre" and "read_answers w = pre @ rest"
    and "len \<le> length (pending pre)" and "len \<le> length buf"
  shows "\<exists>w' pre'. SerialReceiveBuffer buf len timeout w =
            Inr (SERIAL_OK, take len (pending pre) @ drop len buf, len, w')
          \<and> read_answers w' = pre' @ rest \<and> list_all keeps_reading pre'
          \<and> pending pre' = drop len (pending pre)
          \<and> delivered w' = delivered w @ take len (pending pre)
          \<and> ioctl_answers w' = ios
          \<and> fd w' = fd w \<and> exp_arr w' = exp_arr w \<and> btn w' = btn w \<and> console w' = console w"
proof -
  from SerialSetTimeout_open [OF assms(1,2,3)] obtain x w1
    where st: "SerialSetTimeout timeout w = Inr (x, w1)" and io: "ioctl_answers w1 = ios"
    by blast
  note fr = SerialSetTimeout_frame [OF st]
  have ra: "read_answers w1 = pre @ rest" using fr assms(5) by simp
  have fit: "0 + len \<le> length buf" using assms(7) by simp
  from recv_loop_prefix [OF assms(4) ra assms(6) fit, of 0 timeout] obtain w' pre' where
    r: "SerialReceiveBuffer_loop buf 0 len 0 timeout w1 =
          Inr (SERIAL_OK, take 0 buf @ take len (pending pre) @ drop (0 + len) buf, 0 + len, w')"
    and f: "read_answers w' = pre' @ rest" "list_all keeps_reading pre'"
      "pending pre' = drop len (pending pre)"
      "delivered w' = delivered w1 @ take len (pending pre)"
      "ioctl_answers w' = ioctl_answers w1"
    by blast
  from recv_loop_post [OF r] have
    g: "fd w' = fd w1" "exp_arr w' = exp_arr w1" "btn w' = btn w1" "console w' = console w1"
    by (auto simp: recv_post_def)
  have "SerialReceiveBuffer buf len timeout w =
          Inr (SERIAL_OK, take len (pending pre) @ drop len buf, len, w')"
    using assms(1) st r by (simp add: SerialReceiveBuffer_def)
  with f g fr io show ?thesis by (intro exI [of _ w'] exI [of _ pre']) simp
qed

subsection \<open>Pedals\<close>

lemma pedal_world_read:
  "SerialReceiveBuffer [0, 0] 2 0 pedal_world = Inr (SERIAL_ERR_READ, [0x12, 0], 1, pedal_world_failed)"
  by (simp add: SerialReceiveBuffer_def pedal_world_def pedal_world_failed_def initial_world_def
      SerialSetTimeout_def sys_ioctl_TCSETS2_def c_div_def SerialReceiveBuffer_loop.simps
      sys_read_def Let_def zero_termios_def)

text \<open>
  Claim C3 says that when the read of the two pedal bytes fails, the stored pedal
  state is left unchanged. \<^verbatim>\<open>ReadPedal\<close> reads straight into \<^verbatim>\<open>exp[pedal]\<close>, so the bytes
  that arrived before the failure are already stored: after the command \<open>0xE0\<close>, one
  byte \<open>0x12\<close> and then a failing \<^verbatim>\<open>read\<close> (\<^verbatim>\<open>errno\<close> 5), pedal 0 holds \<open>[0x12, 0]\<close>
  where it held \<open>[0, 0]\<close>.
\<close>

theorem C3_partial_pedal_read_counterexample:
  "main_switch 0xE0 pedal_world =
     Inr (pedal_world_failed\<lparr>exp_arr := [[0x12, 0], [0, 0]],
            console := [Print_pedal_error SERIAL_ERR_READ 0, Sleep 1]\<rparr>)
   \<and> exp_arr pedal_world = [[0, 0], [0, 0]]"
proof -
  have e: "exp_arr pedal_world = [[0, 0], [0, 0]]" "console pedal_world_failed = []"
    "exp_arr pedal_world_failed = [[0, 0], [0, 0]]"
    by (simp_all add: pedal_world_def pedal_world_failed_def initial_world_def)
  show ?thesis
    using pedal_world_read by (simp add: main_switch_def ReadPedal_def e Let_def)
qed

text \<open>
  Claim C3 as amended. When \<^verbatim>\<open>SerialReceiveBuffer\<close> returns an error to \<^verbatim>\<open>ReadPedal\<close>,
  the error is printed, the program sleeps one second and \<^verbatim>\<open>ReadPedal\<close> returns (the
  main loop goes on to its next command byte; no further byte is taken from the
  line). Fewer than two bytes were received; they overwrite the leading bytes of
  the pedal's slot and the rest of the slot, the other pedal and the buttons are
  unchanged. When no byte was received the pedal state is unchanged.
\<close>

theorem C3_pedal_read_failure:
  assumes "arrays_ok w" and "pedal = 0 \<or> pedal = 1"
    and "SerialReceiveBuffer (exp_arr w ! nat pedal) 2 0 w = Inr (err, row, n, w1)"
    and "err \<noteq> 0"
  shows "\<exists>got w'. ReadPedal pedal w = Inr w'
      \<and> console w' = console w @ [Print_pedal_error err pedal, Sleep 1]
      \<and> read_answers w' = read_answers w1
      \<and> length got < 2
      \<and> delivered w' = delivered w @ got
      \<and> exp_arr w' ! nat pedal = got @ drop (length got) (exp_arr w ! nat pedal)
      \<and> exp_arr w' ! nat (1 - pedal) = exp_arr w ! nat (1 - pedal)
      \<and> btn w' = btn w
      \<and> (got = [] \<longrightarrow> exp_arr w' = exp_arr w)"
proof -
  let ?old = "exp_arr w ! nat pedal"
  let ?w' = "w1\<lparr>exp_arr := (exp_arr w1)[nat pedal := row],
                 console := console w1 @ [Print_pedal_error err pedal, Sleep 1]\<rparr>"
  from assms(1) have len: "length (exp_arr w) = 2" by (simp add: arrays_ok_def)
  from assms(2) have ix: "nat pedal < 2" "nat (1 - pedal) < 2" "nat pedal \<noteq> nat (1 - pedal)"
    "\<not> (pedal < 0 \<or> int (length (exp_arr w)) \<le> pedal)"
    using len by auto
  have rp: "ReadPedal pedal w = Inr ?w'"
    using assms(3,4) ix(4) by (simp add: ReadPedal_def Let_def)
  have "\<exists>got. length got < 2 \<and> delivered w1 = delivered w @ got
          \<and> row = got @ drop (length got) ?old
          \<and> exp_arr w1 = exp_arr w \<and> btn w1 = btn w \<and> console w1 = console w"
  proof (cases "fd w < 0")
    case True
    with assms(3) have "row = ?old" "w1 = w" by (auto simp: SerialReceiveBuffer_def)
    then show ?thesis by (intro exI [of _ "[]"]) simp
  next
    case False
    then have "0 \<le> fd w" by simp
    from SerialReceiveBuffer_post [OF this assms(3)] obtain x w0 got
      where st: "SerialSetTimeout 0 w = Inr (x, w0)"
        and p: "recv_post ?old 0 2 0 0 w0 err row n w1 got" by blast
    note fr = SerialSetTimeout_frame [OF st]
    from p assms(4) have "length got < 2" "delivered w1 = delivered w0 @ got"
      "row = got @ drop (length got) ?old" "exp_arr w1 = exp_arr w0" "btn w1 = btn w0"
      "console w1 = console w0"
      by (auto simp: recv_post_def)
    with fr show ?thesis by (intro exI [of _ got]) simp
  qed
  then obtain got where g: "length got < 2" "delivered w1 = delivered w @ got"
    "row = got @ drop (length got) ?old"
    "exp_arr w1 = exp_arr w" "btn w1 = btn w" "console w1 = console w" by blast
  have "console ?w' = console w @ [Print_pedal_error err pedal, Sleep 1]" using g by simp
  moreover have "read_answers ?w' = read_answers w1" by simp
  moreover have "delivered ?w' = delivered w @ got" using g by simp
  moreover have "exp_arr ?w' ! nat pedal = got @ drop (length got) ?old"
    using g ix len by simp
  moreover have "exp_arr ?w' ! nat (1 - pedal) = exp_arr w ! nat (1 - pedal)"
    using g ix len by simp
  moreover have "btn ?w' = btn w" using g by simp
  moreover have "got = [] \<longrightarrow> exp_arr ?w' = exp_arr w" using g by simp
  ultimately show ?thesis using rp g(1) by blast
qed

theorem C3_pedal_read_failure_witness:
  "arrays_ok pedal_world
   \<and> SerialReceiveBuffer (exp_arr pedal_world ! nat 0) 2 0 pedal_world
       = Inr (SERIAL_ERR_READ, [0x12, 0], 1, pedal_world_failed)
   \<and> (\<exists>got w'. ReadPedal 0 pedal_world = Inr w'
      \<and> console w' = console pedal_world @ [Print_pedal_error SERIAL_ERR_READ 0, Sleep 1]
      \<and> read_answers w' = read_answers pedal_world_failed
      \<and> length got < 2
      \<and> delivered w' = delivered pedal_world @ got
      \<and> exp_arr w' ! nat 0 = got @ drop (length got) (exp_arr pedal_world ! nat 0)
      \<and> exp_arr w' ! nat (1 - 0) = exp_arr pedal_world ! nat (1 - 0)
      \<and> btn w' = btn pedal_world)"
proof -
  have a: "arrays_ok pedal_world"
    by (simp add: arrays_ok_def pedal_world_def initial_world_def)
  have b: "(0::int) = 0 \<or> (0::int) = 1" by simp
  have c: "SerialReceiveBuffer (exp_arr pedal_world ! nat 0) 2 0 pedal_world
       = Inr (SERIAL_ERR_READ, [0x12, 0], 1, pedal_world_failed)"
    using pedal_world_read by (simp add: pedal_world_def initial_world_def)
  have d: "SERIAL_ERR_READ \<noteq> 0" by simp
  from C3_pedal_read_failure [OF a b c d] a c show ?thesis by blast
qed


text \<open>
  Claim C7. Let the port be open and let the line deliver the three bytes
  \<open>0xE0, 0x12, 0x34\<close>, in whatever portions and with whatever interruptions by
  signals. Then one turn of the main loop reads the command \<open>0xE0\<close> and the two
  bytes after it: pedal 0 holds \<open>[0x12, 0x34]\<close>, pedal 1 and all twelve buttons are
  as before, exactly these three bytes were taken from the line, and the console
  shows one status line and no error.
\<close>

theorem C7_pedal_frame:
  assumes "0 \<le> fd w" and "arrays_ok w" and "ioctl_answers w = a # b # ios"
    and "list_all keeps_reading pre" and "pending pre = [0xE0, 0x12, 0x34]"
    and "read_answers w = pre @ rest"
  shows "\<exists>w'. main_loop_body cmd w = Inr (0xE0, w')
      \<and> exp_arr w' ! 0 = [0x12, 0x34] \<and> exp_arr w' ! 1 = exp_arr w ! 1
      \<and> length (exp_arr w') = 2 \<and> btn w' = btn w
      \<and> delivered w' = delivered w @ [0xE0, 0x12, 0x34]
      \<and> pending (read_answers w') = pending rest
      \<and> console w' = console w @
            [Print_state 0xE0 [[0x12, 0x34], exp_arr w ! 1] (map (\<lambda>b. b \<noteq> 0) (btn w)),
             Usleep 10000]"
proof -
  from assms(2) have sz: "length (exp_arr w) = 2" "length (exp_arr w ! 0) = 2"
    "length (btn w) = 12" by (simp_all add: arrays_ok_def)
  have l1: "1 \<le> length (pending pre)" "(1::nat) \<le> length [cmd]" "(1::int) \<le> INT_MAX - 99"
    by (simp_all add: assms(5))
  from SerialReceiveBuffer_prefix [OF assms(1,3) l1(3) assms(4,6) l1(1,2)]
  obtain w1 pre1 where
    r1: "SerialReceiveBuffer [cmd] 1 1 w = Inr (SERIAL_OK, [0xE0], 1, w1)"
    and f1: "read_answers w1 = pre1 @ rest" "list_all keeps_reading pre1"
      "pending pre1 = [0x12, 0x34]" "delivered w1 = delivered w @ [0xE0]"
      "ioctl_answers w1 = b # ios"
      "fd w1 = fd w" "exp_arr w1 = exp_arr w" "btn w1 = btn w" "console w1 = console w"
    by (auto simp: assms(5))
  have l2: "2 \<le> length (pending pre1)" "2 \<le> length (exp_arr w1 ! 0)" "(0::int) \<le> INT_MAX - 99"
    "0 \<le> fd w1"
    using f1 sz assms(1) by simp_all
  from SerialReceiveBuffer_prefix [OF l2(4) f1(5) l2(3) f1(2,1) l2(1,2)]
  obtain w2 pre2 where
    r2: "SerialReceiveBuffer (exp_arr w1 ! 0) 2 0 w1 = Inr (SERIAL_OK, [0x12, 0x34], 2, w2)"
    and f2: "read_answers w2 = pre2 @ rest" "pending pre2 = []"
      "delivered w2 = delivered w1 @ [0x12, 0x34]"
      "exp_arr w2 = exp_arr w1" "btn w2 = btn w1" "console w2 = console w1"
    using f1(3,7) sz by auto
  have sw: "main_switch 0xE0 w1 = Inr (w2\<lparr>exp_arr := (exp_arr w2)[0 := [0x12, 0x34]]\<rparr>)"
    using r2 f1(7) sz by (simp add: main_switch_def ReadPedal_def Let_def)
  have ex: "(exp_arr w)[0 := [0x12, 0x34]] = [[0x12, 0x34], exp_arr w ! 1]"
    using sz(1) by (cases "exp_arr w"; cases "tl (exp_arr w)") auto
  have pr: "pending (pre2 @ rest) = pending rest"
    using f2(2) by (simp add: pending_def)
  have "main_loop_body cmd w =
      Inr (0xE0, w2\<lparr>exp_arr := [[0x12, 0x34], exp_arr w ! 1],
        console := console w @
            [Print_state 0xE0 [[0x12, 0x34], exp_arr w ! 1] (map (\<lambda>b. b \<noteq> 0) (btn w)),
             Usleep 10000]\<rparr>)"
    using r1 sw f1 f2 sz ex
    by (simp add: main_loop_body_def SerialReceiveByte_def Let_def)
  then show ?thesis
    using f1 f2 pr by simp
qed


theorem C7_pedal_frame_witness:
  "\<exists>w'. main_loop_body 0 frame_world = Inr (0xE0, w')
      \<and> exp_arr w' ! 0 = [0x12, 0x34] \<and> exp_arr w' ! 1 = [0, 0]
      \<and> length (exp_arr w') = 2 \<and> btn w' = replicate 12 0
      \<and> delivered w' = [0xE0, 0x12, 0x34]
      \<and> pending (read_answers w') = [0xF3]"
proof -
  have h: "0 \<le> fd frame_world" "arrays_ok frame_world"
    "ioctl_answers frame_world = 0 # 0 # []"
    "list_all keeps_reading [ReadFails EINTR, ReadGives [0xE0, 0x12], ReadGives [0x34]]"
    "pending [ReadFails EINTR, ReadGives [0xE0, 0x12], ReadGives [0x34]] = [0xE0, 0x12, 0x34]"
    "read_answers frame_world =
       [ReadFails EINTR, ReadGives [0xE0, 0x12], ReadGives [0x34]] @ [ReadGives [0xF3]]"
    by (simp_all add: frame_world_def initial_world_def arrays_ok_def pending_def)
  have v: "exp_arr frame_world ! 1 = [0, 0]" "btn frame_world = replicate 12 0"
    "delivered frame_world = []" "pending [ReadGives [0xF3]] = [0xF3]"
    by (simp_all add: frame_world_def initial_world_def pending_def)
  from C7_pedal_frame [OF h, of 0] show ?thesis
    unfolding v by auto
qed


subsection \<open>Buttons\<close>

text \<open>
  Claim C2 asks that a button command whose low nibble is 12, 13 or 14 be ignored.
  The source does not check the index: for the command bytes \<open>0xFC\<close>, \<open>0xFD\<close> and
  \<open>0xFE\<close> the switch of \<^verbatim>\<open>main\<close> calls \<^verbatim>\<open>ReadButton\<close> with 12, 13 and 14, and the store
  \<^verbatim>\<open>btn[button] = 1\<close> lands past the end of the 12-entry array.
\<close>

theorem C2_button_index_out_of_range:
  "main_switch 0xFC initial_world = Inl Out_of_bounds
   \<and> main_switch 0xFD initial_world = Inl Out_of_bounds
   \<and> main_switch 0xFE initial_world = Inl Out_of_bounds"
  by (simp add: main_switch_def ReadButton_def initial_world_def)

text \<open>
  Claim C8: the command byte \<open>0xF3\<close> sets button 3 and leaves every other entry of
  \<^verbatim>\<open>btn\<close> as it was (and nothing else in the world changes); the command byte \<open>0xFF\<close>
  after it puts all 12 entries back to zero, button 3 among them.
\<close>

theorem C8_button_set_then_clear:
  assumes "length (btn w) = 12"
  shows "main_switch 0xF3 w = Inr (w\<lparr>btn := (btn w)[3 := 1]\<rparr>)
     \<and> (btn w)[3 := 1] ! 3 = 1
     \<and> (\<forall>i. i \<noteq> 3 \<longrightarrow> (btn w)[3 := 1] ! i = btn w ! i)
     \<and> main_switch 0xFF (w\<lparr>btn := (btn w)[3 := 1]\<rparr>) = Inr (w\<lparr>btn := replicate 12 0\<rparr>)
     \<and> (\<forall>i < 12. replicate 12 (0::byte) ! i = 0)"
  using assms by (simp add: main_switch_def ReadButton_def)

theorem C8_button_set_then_clear_witness:
  "length (btn initial_world) = 12
   \<and> main_switch 0xF3 initial_world = Inr (initial_world\<lparr>btn := [0,0,0,1,0,0,0,0,0,0,0,0]\<rparr>)
   \<and> main_switch 0xFF (initial_world\<lparr>btn := [0,0,0,1,0,0,0,0,0,0,0,0]\<rparr>)
       = Inr (initial_world\<lparr>btn := [0,0,0,0,0,0,0,0,0,0,0,0]\<rparr>)"
proof -
  have h: "length (btn initial_world) = 12" by (simp add: initial_world_def)
  have b: "(btn initial_world)[3 := 1] = [0,0,0,1,0,0,0,0,0,0,0,0]"
    by (simp add: initial_world_def eval_nat_numeral)
  have r: "replicate 12 (0::byte) = [0,0,0,0,0,0,0,0,0,0,0,0]"
    by (simp add: eval_nat_numeral)
  from C8_button_set_then_clear [OF h] show ?thesis
    unfolding b r using h by simp
qed

subsection \<open>A port that was never opened\<close>

text \<open>
  Claim C10: while \<^verbatim>\<open>fd\<close> is negative (it is \<open>- 1\<close> until \<^verbatim>\<open>SerialOpen\<close> succeeds),
  \<^verbatim>\<open>SerialFlush\<close>, \<^verbatim>\<open>SerialDrain\<close>, \<^verbatim>\<open>SerialInit\<close>, \<^verbatim>\<open>SerialSendBuffer\<close> and
  \<^verbatim>\<open>SerialReceiveBuffer\<close> return a negative code and leave the world as it is: no
  system call is logged, no answer of the kernel is used. \<^verbatim>\<open>SerialReceiveBuffer\<close>
  returns \<^verbatim>\<open>SERIAL_ERR_READ\<close> and hands back the buffer and \<^verbatim>\<open>*len\<close> untouched. The
  same holds of the one-byte wrappers \<^verbatim>\<open>SerialSendByte\<close> and \<^verbatim>\<open>SerialReceiveByte\<close>.
\<close>

theorem C10_closed_port:
  assumes "fd w < 0"
  shows "SerialFlush w = (SERIAL_ERR, w)
     \<and> SerialDrain w = (SERIAL_ERR, w)
     \<and> SerialInit baud format rtscts w = Inr (SERIAL_ERR_INIT, w)
     \<and> SerialSendBuffer sbuf slen w = Inr (SERIAL_ERR_WRITE, w)
     \<and> SerialReceiveBuffer rbuf rlen timeout w = Inr (SERIAL_ERR_READ, rbuf, rlen, w)
     \<and> SerialSendByte b w = Inr (SERIAL_ERR_WRITE, w)
     \<and> SerialReceiveByte c timeout w = Inr (SERIAL_ERR_READ, c, w)"
  using assms
  by (simp add: SerialFlush_def SerialDrain_def SerialInit_def SerialSendBuffer_def
      SerialReceiveBuffer_def SerialSendByte_def SerialReceiveByte_def)

theorem C10_closed_port_witness:
  "fd initial_world < 0
   \<and> SerialFlush initial_world = (SERIAL_ERR, initial_world)
   \<and> SerialDrain initial_world = (SERIAL_ERR, initial_world)
   \<and> SerialInit 10416 (Some ''8N1'') 0 initial_world = Inr (SERIAL_ERR_INIT, initial_world)
   \<and> SerialSendBuffer [0x55] 1 initial_world = Inr (SERIAL_ERR_WRITE, initial_world)
   \<and> SerialReceiveBuffer [0, 0] 2 0 initial_world
       = Inr (SERIAL_ERR_READ, [0, 0], 2, initial_world)"
proof -
  have h: "fd initial_world < 0" by (simp add: initial_world_def)
  from C10_closed_port [OF h] h show ?thesis by simp
qed

end
